theory Spec2Isabelle
  imports Main "HOL-Library.Product_Lexorder" "HOL-Library.AList" "HOL-Library.Multiset"
begin

unbundle bit_operations_syntax

section \<open>Strings and the permission class\<close>

text \<open>
  A Python \<open>str\<close> is a sequence of Unicode code points, and \<open>len\<close> counts code points.
  The model keeps that: a string is a list of code points, so the change markers
  (U+2705, U+274C, U+1F533) are one character each, as they are for \<open>len\<close>.
  ASCII literals of the source are written \<open>lit ''...''\<close>.
\<close>

type_synonym pystr = "nat list"

abbreviation (input) lit :: "string \<Rightarrow> pystr" where
  "lit s \<equiv> map of_char s"

text \<open>
  \<open>discord.Permissions\<close> is a class of the discord.py library, not of this repository.
  The plugin reads three things of it, and the model takes them as a parameter:
  the flags that iterating a \<open>Permissions\<close> value yields, in order, each with its bit
  position (aliases are skipped by the iteration); the alias flags; and the names of the
  other attributes of the class (class methods such as \<open>none\<close> and \<open>all\<close>), for which
  \<open>getattr\<close> succeeds although they are not flags.
\<close>

record perm_class =
  flag_order :: "(pystr \<times> nat) list"
  alias_flags :: "(pystr \<times> nat) list"
  other_attrs :: "pystr list"

datatype attr = Flag int | NotFlag

text \<open>\<open>getattr(discord.Permissions, perm)\<close>; \<open>None\<close> is the AttributeError.\<close>

definition getattr_Permissions :: "perm_class \<Rightarrow> pystr \<Rightarrow> attr option" where
  "getattr_Permissions P perm =
     (case map_of (flag_order P @ alias_flags P) perm of
        Some k \<Rightarrow> Some (Flag (2 ^ k))
      | None \<Rightarrow> if perm \<in> set (other_attrs P) then Some NotFlag else None)"

text \<open>Iterating a \<open>Permissions\<close> value: \<open>(name, value has the flag)\<close> in flag order.\<close>

definition iter_Permissions :: "perm_class \<Rightarrow> int \<Rightarrow> (pystr \<times> bool) list" where
  "iter_Permissions P v = map (\<lambda>(n, k). (n, bit v k)) (flag_order P)"

text \<open>
  A \<open>PermissionOverwrite\<close> is modelled by what its \<open>pair()\<close> returns: the values of the
  allow and the deny \<open>Permissions\<close>. \<open>from_pair\<close> of the library sets every flag of
  \<open>allow\<close> to True and afterwards every flag of \<open>deny\<close> to False, so a flag in both
  ends up denied, and bits that are no flag are dropped.
\<close>

type_synonym overwrite = "int \<times> int"

definition perm_of :: "perm_class \<Rightarrow> (nat \<Rightarrow> bool) \<Rightarrow> int" where
  "perm_of P pred = fold (\<lambda>(n, k) v. if pred k then v OR 2 ^ k else v) (flag_order P) 0"

definition from_pair :: "perm_class \<Rightarrow> int \<Rightarrow> int \<Rightarrow> overwrite" where
  "from_pair P a d = (perm_of P (\<lambda>k. bit a k \<and> \<not> bit d k), perm_of P (\<lambda>k. bit d k))"

section \<open>Mask arithmetic\<close>

definition tweak_permissions :: "int \<Rightarrow> int \<Rightarrow> int \<Rightarrow> int" where
  "tweak_permissions permissions add_mask remove_mask =
     ((permissions AND NOT remove_mask) OR add_mask)"

definition tweak_overwrite :: "perm_class \<Rightarrow> overwrite \<Rightarrow> int \<Rightarrow> int \<Rightarrow> int \<Rightarrow> overwrite" where
  "tweak_overwrite P overwrite add_mask remove_mask reset_mask =
     (case overwrite of (allow, deny) \<Rightarrow>
        from_pair P (tweak_permissions allow add_mask reset_mask)
                    (tweak_permissions deny remove_mask reset_mask))"

text \<open>The arithmetic as the specification words it, for comparison.\<close>

definition tweak_spec :: "overwrite \<Rightarrow> int \<Rightarrow> int \<Rightarrow> int \<Rightarrow> overwrite" where
  "tweak_spec overwrite add_mask remove_mask reset_mask =
     (case overwrite of (old_allow, old_deny) \<Rightarrow>
        (((old_allow AND NOT reset_mask) AND NOT remove_mask) OR add_mask,
         ((old_deny AND NOT reset_mask) AND NOT add_mask) OR remove_mask))"

text \<open>A small permission class for concrete evaluations, with discord.py's bit positions.\<close>

definition demo_perms :: perm_class where
  "demo_perms = \<lparr>
     flag_order = [(lit ''kick_members'', 1), (lit ''ban_members'', 2),
                   (lit ''read_messages'', 10), (lit ''send_messages'', 11)],
     alias_flags = [(lit ''view_channel'', 10)],
     other_attrs = [lit ''none'', lit ''all'']\<rparr>"

section \<open>Guild state\<close>

text \<open>
  The objects of the library that the plugin reads. The library keeps one object per
  identifier in a guild and compares roles, members and channels by identifier; the model
  compares the records, which is the same comparison for the objects of one guild.
  \<open>roles\<close> is \<open>guild.roles\<close> (the library returns it in rank order), \<open>channels\<close> is
  \<open>guild.channels\<close>, \<open>overwrites\<close> is the dictionary \<open>channel.overwrites\<close> in its
  iteration order.
\<close>

datatype kind = CategoryChannel | TextChannel | StoreChannel | VoiceChannel | StageChannel

record role =
  role_id :: int
  role_name :: pystr
  role_permissions :: int

record member =
  member_id :: int
  member_name :: pystr

text \<open>An overwrite target is a role or a member object.\<close>

datatype target = TRole role | TMember member

fun target_id :: "target \<Rightarrow> int" where
  "target_id (TRole r) = role_id r"
| "target_id (TMember m) = member_id m"

fun is_role :: "target \<Rightarrow> bool" where
  "is_role (TRole r) = True"
| "is_role (TMember m) = False"

record channel =
  chan_id :: int
  chan_name :: pystr
  kind :: kind
  category_id :: "int option"
  position :: int
  overwrites :: "(target \<times> overwrite) list"

record guild =
  roles :: "role list"
  channels :: "channel list"
  members :: "member list"

text \<open>
  What the import reads of the Python interpreter it runs on, taken as a parameter: the
  decimal value of a code point that is a decimal digit of some script (the table behind
  \<open>unicodedata.decimal\<close>; the code reads it only for code points from 127 on), the limit
  of \<open>sys.get_int_max_str_digits()\<close> (0 when there is none, 4300 by default), and the
  order in which a set of channels is iterated, given the channels in the order they were
  added.
\<close>

record py_env =
  unicode_decimal :: "nat \<Rightarrow> nat option"
  max_str_digits :: nat
  set_iter :: "channel list \<Rightarrow> channel list"

definition get_channel :: "guild \<Rightarrow> int \<Rightarrow> channel option" where
  "get_channel g i = find (\<lambda>c. chan_id c = i) (channels g)"

definition get_member :: "guild \<Rightarrow> int \<Rightarrow> member option" where
  "get_member g i = find (\<lambda>m. member_id m = i) (members g)"

definition get_role :: "guild \<Rightarrow> int \<Rightarrow> role option" where
  "get_role g i = find (\<lambda>r. role_id r = i) (roles g)"

text \<open>\<open>channel.category\<close>: the library looks \<open>category_id\<close> up among the guild's channels.\<close>

definition chan_category :: "guild \<Rightarrow> channel \<Rightarrow> channel option" where
  "chan_category g c = (case category_id c of None \<Rightarrow> None | Some i \<Rightarrow> get_channel g i)"

definition is_category :: "channel \<Rightarrow> bool" where
  "is_category c = (kind c = CategoryChannel)"

text \<open>Equality of two dictionaries given as association lists.\<close>

definition dict_eq :: "('k \<times> 'v) list \<Rightarrow> ('k \<times> 'v) list \<Rightarrow> bool" where
  "dict_eq xs ys =
     (list_all (\<lambda>(k, v). map_of ys k = Some v) xs \<and> list_all (\<lambda>(k, v). map_of xs k = Some v) ys)"

text \<open>
  \<open>channel.permissions_synced\<close> is a property the library computes: the channel has a
  category and the two overwrite dictionaries are equal.
\<close>

definition permissions_synced :: "guild \<Rightarrow> channel \<Rightarrow> bool" where
  "permissions_synced g c =
     (case chan_category g c of None \<Rightarrow> False | Some cat \<Rightarrow> dict_eq (overwrites cat) (overwrites c))"

section \<open>Sort keys and disambiguated names\<close>

text \<open>\<open>list.index\<close>; \<open>None\<close> is the ValueError.\<close>

fun index :: "'a list \<Rightarrow> 'a \<Rightarrow> nat option" where
  "index [] x = None"
| "index (y # ys) x = (if y = x then Some 0 else map_option Suc (index ys x))"

definition channel_sort_key :: "guild \<Rightarrow> channel \<Rightarrow> int \<times> bool \<times> int" where
  "channel_sort_key g c =
     (if is_category c then (position c, False, -1)
      else ((case chan_category g c of Some cat \<Rightarrow> position cat | None \<Rightarrow> -1),
            kind c = VoiceChannel \<or> kind c = StageChannel,
            position c))"

definition overwrite_sort_key :: "guild \<Rightarrow> target \<times> overwrite \<Rightarrow> int" where
  "overwrite_sort_key g pair =
     (case fst pair of
        TRole r \<Rightarrow> (case index (roles g) r of Some n \<Rightarrow> int n | None \<Rightarrow> -1)
      | TMember m \<Rightarrow> -1)"

text \<open>Decimal rendering of integers, as \<open>str.format\<close> does.\<close>

function show_nat :: "nat \<Rightarrow> pystr" where
  "show_nat n = (if n < 10 then [48 + n] else show_nat (n div 10) @ [48 + n mod 10])"
  by pat_completeness auto
termination
  by (relation "measure id") auto

declare show_nat.simps [simp del]

definition show_int :: "int \<Rightarrow> pystr" where
  "show_int i = (if i < 0 then 45 # show_nat (nat (- i)) else show_nat (nat i))"

text \<open>\<open>None\<close> is the ValueError of \<open>chans.index(channel)\<close> for a channel that is not in the guild.\<close>

definition disambiguated_name :: "guild \<Rightarrow> channel \<Rightarrow> pystr option" where
  "disambiguated_name g channel =
     (let chans = filter (\<lambda>chan. chan_name chan = chan_name channel) (channels g) in
      if length chans < 2 then Some (chan_name channel)
      else map_option (\<lambda>n. chan_name channel @ lit '' ('' @ show_nat (1 + n) @ lit '')'')
             (index (map chan_id (sort_key chan_id chans)) (chan_id channel)))"

text \<open>
  A dictionary built by a comprehension, as the list of its assignments; a later
  assignment to the same key wins.
\<close>

definition dict_get :: "('k \<times> 'v) list \<Rightarrow> 'k \<Rightarrow> 'v option" where
  "dict_get d k = map_of (rev d) k"

definition channels_dict :: "guild \<Rightarrow> (pystr \<times> channel) list option" where
  "channels_dict g =
     those (map (\<lambda>c. map_option (\<lambda>n. (n, c)) (disambiguated_name g c)) (channels g))"

definition roles_dict :: "guild \<Rightarrow> (pystr \<times> role) list" where
  "roles_dict g = map (\<lambda>r. (role_name r, r)) (roles g)"

definition sorted_overwrites :: "guild \<Rightarrow> channel \<Rightarrow> (target \<times> overwrite) list" where
  "sorted_overwrites g c = sort_key (overwrite_sort_key g) (overwrites c)"

text \<open>
  The label as the specification words it: the bare name when the name is unique, otherwise
  the name with the 1-based occurrence index in identifier order.
\<close>

definition occurrence_label :: "guild \<Rightarrow> channel \<Rightarrow> pystr" where
  "occurrence_label g c =
     (let same = filter (\<lambda>x. chan_name x = chan_name c) (channels g) in
      if length same < 2 then chan_name c
      else chan_name c @ lit '' ('' @
           show_nat (1 + length (filter (\<lambda>x. chan_id x < chan_id c) same)) @ lit '')'')"

text \<open>Example objects for concrete evaluations.\<close>

definition text_channel :: "pystr \<Rightarrow> int \<Rightarrow> int option \<Rightarrow> (target \<times> overwrite) list \<Rightarrow> channel" where
  "text_channel n i cat ows =
     \<lparr>chan_id = i, chan_name = n, kind = TextChannel, category_id = cat, position = 0,
      overwrites = ows\<rparr>"

definition category_channel :: "pystr \<Rightarrow> int \<Rightarrow> (target \<times> overwrite) list \<Rightarrow> channel" where
  "category_channel n i ows =
     \<lparr>chan_id = i, chan_name = n, kind = CategoryChannel, category_id = None, position = 0,
      overwrites = ows\<rparr>"

definition guild_two_general :: guild where
  "guild_two_general = \<lparr>roles = [],
     channels = [text_channel (lit ''general'') 200 None [],
                 text_channel (lit ''general'') 100 None [],
                 text_channel (lit ''rules'') 300 None []],
     members = []\<rparr>"

definition guild_label_clash :: guild where
  "guild_label_clash = \<lparr>roles = [],
     channels = [text_channel (lit ''general'') 100 None [],
                 text_channel (lit ''general'') 200 None [],
                 text_channel (lit ''general (1)'') 300 None []],
     members = []\<rparr>"

definition role_mod :: role where
  "role_mod = \<lparr>role_id = 1, role_name = lit ''mod'', role_permissions = 0\<rparr>"

definition member_ann :: member where
  "member_ann = \<lparr>member_id = 7, member_name = lit ''ann''\<rparr>"

definition chan_role_member :: channel where
  "chan_role_member =
     text_channel (lit ''general'') 100 None [(TRole role_mod, (0, 0)), (TMember member_ann, (0, 0))]"

definition guild_role_member :: guild where
  "guild_role_member = \<lparr>roles = [role_mod], channels = [chan_role_member], members = [member_ann]\<rparr>"

section \<open>Rendering the change notes\<close>

text \<open>
  The loop at the end of \<open>importperms\<close> that sends the notes; the result is the list of
  the messages sent, in order. The command returns before this loop when there is no note.
\<close>

fun render_loop :: "pystr \<Rightarrow> pystr list \<Rightarrow> pystr list" where
  "render_loop text [] = [text]"
| "render_loop text (out # outs) =
     (if length text + 1 + length out > 2000 then text # render_loop out outs
      else render_loop (text @ lit [CHR 0x0A] @ out) outs)"

definition render :: "pystr list \<Rightarrow> pystr list" where
  "render output = render_loop [] output"

text \<open>\<open>"\n".join\<close>, to say what a message is made of.\<close>

fun join_lines :: "pystr list \<Rightarrow> pystr" where
  "join_lines [] = []"
| "join_lines [x] = x"
| "join_lines (x # y # ys) = x @ lit [CHR 0x0A] @ join_lines (y # ys)"

section \<open>String operations of the import\<close>

definition startswith :: "pystr \<Rightarrow> pystr \<Rightarrow> bool" where
  "startswith s p = (take (length p) s = p)"

definition removeprefix :: "pystr \<Rightarrow> pystr \<Rightarrow> pystr" where
  "removeprefix s p = (if startswith s p then drop (length p) s else s)"

text \<open>The characters \<open>str.split()\<close> treats as white space.\<close>

definition isspace :: "nat \<Rightarrow> bool" where
  "isspace c = ((9 \<le> c \<and> c \<le> 13) \<or> (28 \<le> c \<and> c \<le> 32) \<or> c = 133 \<or> c = 160 \<or> c = 5760
     \<or> (8192 \<le> c \<and> c \<le> 8202) \<or> c = 8232 \<or> c = 8233 \<or> c = 8239 \<or> c = 8287 \<or> c = 12288)"

text \<open>\<open>s.split(maxsplit=1)[0]\<close>; \<open>None\<close> is the IndexError when \<open>s\<close> has no token.\<close>

definition first_token :: "pystr \<Rightarrow> pystr option" where
  "first_token s =
     (let s' = dropWhile isspace s in
      if s' = [] then None else Some (takeWhile (\<lambda>c. \<not> isspace c) s'))"

text \<open>
  \<open>int(s)\<close>, with \<open>None\<close> for the ValueError. A string that is not ASCII is first
  rewritten: white space becomes a blank, a decimal digit of any script its ASCII digit, and
  at the first other code point from 127 on the rest is cut off behind a question mark.
  What is left is read as ASCII: white space \<open>\t\n\v\f\r\<close> and blank at both ends is
  skipped, then comes an optional sign, then decimal digits with single underscores
  allowed between digits. A number with more than 640 digits and more digits than the limit
  of the interpreter is refused.
\<close>

definition ascii_space :: "nat \<Rightarrow> bool" where
  "ascii_space c = ((9 \<le> c \<and> c \<le> 13) \<or> c = 32)"

fun to_ascii :: "py_env \<Rightarrow> pystr \<Rightarrow> pystr" where
  "to_ascii E [] = []"
| "to_ascii E (c # cs) =
     (if c < 127 then c # to_ascii E cs
      else if isspace c then 32 # to_ascii E cs
      else (case unicode_decimal E c of
              Some d \<Rightarrow> (48 + d) # to_ascii E cs
            | None \<Rightarrow> [63]))"

definition strip_ascii :: "pystr \<Rightarrow> pystr" where
  "strip_ascii s = rev (dropWhile ascii_space (rev (dropWhile ascii_space s)))"

fun parse_digits :: "bool \<Rightarrow> nat \<Rightarrow> pystr \<Rightarrow> nat option" where
  "parse_digits prev acc [] = (if prev then Some acc else None)"
| "parse_digits prev acc (c # cs) =
     (if 48 \<le> c \<and> c \<le> 57 then parse_digits True (acc * 10 + (c - 48)) cs
      else if c = 95 \<and> prev then parse_digits False acc cs
      else None)"

definition digits_allowed :: "py_env \<Rightarrow> nat \<Rightarrow> bool" where
  "digits_allowed E n = (\<not> (0 < max_str_digits E \<and> 640 < n \<and> max_str_digits E < n))"

definition read_digits :: "py_env \<Rightarrow> bool \<Rightarrow> pystr \<Rightarrow> int option" where
  "read_digits E negative body =
     (case parse_digits False 0 body of
        None \<Rightarrow> None
      | Some n \<Rightarrow>
          if digits_allowed E (length (filter (\<lambda>c. 48 \<le> c \<and> c \<le> 57) body))
          then Some (if negative then - int n else int n)
          else None)"

definition py_int :: "py_env \<Rightarrow> pystr \<Rightarrow> int option" where
  "py_int E s =
     (case strip_ascii (to_ascii E s) of
        [] \<Rightarrow> None
      | c # cs \<Rightarrow>
          if c = 43 then read_digits E False cs
          else if c = 45 then read_digits E True cs
          else read_digits E False (c # cs))"

text \<open>\<open>", ".join(changes)\<close>.\<close>

fun join_comma :: "pystr list \<Rightarrow> pystr" where
  "join_comma [] = []"
| "join_comma [x] = x"
| "join_comma (x # y # ys) = x @ lit '', '' @ join_comma (y # ys)"

text \<open>
  The conversions of \<open>util.discord.format\<close> that the import uses: \<open>{!c}\<close> of a channel,
  \<open>{!M}\<close> of a role, \<open>{!m}\<close> of a member.
\<close>

definition fmt_c :: "channel \<Rightarrow> pystr" where
  "fmt_c c = lit ''<#'' @ show_int (chan_id c) @ lit ''>''"

definition fmt_target :: "target \<Rightarrow> pystr" where
  "fmt_target t =
     (case t of TRole r \<Rightarrow> lit ''<@&'' @ show_int (role_id r) @ lit ''>''
      | TMember m \<Rightarrow> lit ''<@'' @ show_int (member_id m) @ lit ''>'')"

section \<open>The import\<close>

text \<open>
  The input of the model is the list of rows that \<open>csv.reader\<close> yields for the attached
  file, the header first. What the command raises is a value of \<open>error\<close>: the
  \<open>UserError\<close>s with what their message names (the line number of the message is left
  out), and the exceptions the code does not catch. \<open>RuntimeError\<close> is what the
  coroutine raises for the StopIteration of \<open>next(reader)\<close> on a file without rows.
\<close>

datatype error =
    InvalidHeader
  | UnknownPermission pystr
  | InvalidRow
  | ExpectedRole
  | UnknownRole pystr
  | UnknownChannel pystr
  | NotACategory pystr
  | IsACategory pystr
  | ExpectedUserID
  | NoSuchMember int
  | ExpectedRoleOrUser
  | NoCategoryForSync channel
  | RuntimeError
  | ValueError
  | IndexError
  | AttributeError
  | UnboundLocalError

type_synonym masks = "int \<times> int \<times> int"

text \<open>
  The deferred actions, with what each closure captures: the role and its two masks; the
  channel and its new category; the channel and its dictionary of \<open>new_overwrites\<close>; the
  channel to sync.
\<close>

datatype action =
    EditRolePermissions role int int
  | EditCategory channel "channel option"
  | EditOverwrites channel "(target \<times> masks) list"
  | EditSyncPermissions channel

text \<open>
  The local variables of \<open>importperms\<close> that outlive a row. The two sets are lists without
  repetition in the order of insertion (the order in which a set is iterated is the
  interpreter's, see \<open>iter_order\<close>), dictionaries are association lists in the order of
  insertion; \<open>out_notes\<close> is the list \<open>output\<close>; \<open>channel_var\<close> is the variable \<open>channel\<close>,
  \<open>None\<close> while it is unbound.
\<close>

record import_state =
  actions :: "action list"
  out_notes :: "pystr list"
  new_overwrites :: "(channel \<times> (target \<times> masks) list) list"
  overwrites_changed :: "channel list"
  want_sync :: "channel list"
  seen_moved :: "(channel \<times> channel option) list"
  channel_var :: "channel option"

definition initial_state :: import_state where
  "initial_state = \<lparr>actions = [], out_notes = [], new_overwrites = [], overwrites_changed = [],
     want_sync = [], seen_moved = [], channel_var = None\<rparr>"

definition set_add :: "'a \<Rightarrow> 'a list \<Rightarrow> 'a list" where
  "set_add x xs = (if x \<in> set xs then xs else xs @ [x])"

definition and_then :: "error + 'a \<Rightarrow> ('a \<Rightarrow> error + 'b) \<Rightarrow> error + 'b" where
  "and_then r f = (case r of Inl e \<Rightarrow> Inl e | Inr x \<Rightarrow> f x)"

subsection \<open>The header\<close>

fun collect_flags :: "perm_class \<Rightarrow> pystr list \<Rightarrow> error + (attr \<times> pystr) list" where
  "collect_flags P [] = Inr []"
| "collect_flags P (perm # perms) =
     (case getattr_Permissions P perm of
        None \<Rightarrow> Inl (UnknownPermission perm)
      | Some a \<Rightarrow> and_then (collect_flags P perms) (\<lambda>flags. Inr ((a, perm) # flags)))"

definition parse_header :: "perm_class \<Rightarrow> pystr list \<Rightarrow> error + (attr \<times> pystr) list" where
  "parse_header P header =
     (if length header < 3 \<or> header ! 0 \<noteq> lit ''Category'' \<or> header ! 1 \<noteq> lit ''Channel''
         \<or> header ! 2 \<noteq> lit ''Role/User''
      then Inl InvalidHeader
      else collect_flags P (drop 3 header))"

subsection \<open>The masks of a row\<close>

text \<open>
  The two loops over \<open>zip(flags, row[3:])\<close>. \<open>flag.flag\<close> is read only when the sign is
  one the loop tests for; on an attribute that is no flag it raises AttributeError.
\<close>

fun role_scan :: "int \<Rightarrow> ((attr \<times> pystr) \<times> pystr) list \<Rightarrow> pystr list \<times> int \<times> int
    \<Rightarrow> error + (pystr list \<times> int \<times> int)" where
  "role_scan perms [] acc = Inr acc"
| "role_scan perms (((a, perm), sign) # rest) (changes, add_mask, remove_mask) =
     (if sign = lit ''+'' then
        (case a of NotFlag \<Rightarrow> Inl AttributeError
         | Flag f \<Rightarrow>
             if perms AND f = 0
             then role_scan perms rest (changes @ [9989 # perm], add_mask OR f, remove_mask)
             else role_scan perms rest (changes, add_mask, remove_mask))
      else if sign = lit ''-'' then
        (case a of NotFlag \<Rightarrow> Inl AttributeError
         | Flag f \<Rightarrow>
             if perms AND f \<noteq> 0
             then role_scan perms rest (changes @ [10060 # perm], add_mask, remove_mask OR f)
             else role_scan perms rest (changes, add_mask, remove_mask))
      else role_scan perms rest (changes, add_mask, remove_mask))"

fun overwrite_scan :: "overwrite \<Rightarrow> ((attr \<times> pystr) \<times> pystr) list \<Rightarrow> pystr list \<times> masks
    \<Rightarrow> error + (pystr list \<times> masks)" where
  "overwrite_scan ow [] acc = Inr acc"
| "overwrite_scan ow (((a, perm), sign) # rest) (changes, add_mask, remove_mask, reset_mask) =
     (if sign = lit ''+'' then
        (case a of NotFlag \<Rightarrow> Inl AttributeError
         | Flag f \<Rightarrow>
             if fst ow AND f = 0
             then overwrite_scan ow rest
                    (changes @ [9989 # perm], add_mask OR f, remove_mask, reset_mask)
             else overwrite_scan ow rest (changes, add_mask, remove_mask, reset_mask))
      else if sign = lit ''-'' then
        (case a of NotFlag \<Rightarrow> Inl AttributeError
         | Flag f \<Rightarrow>
             if snd ow AND f = 0
             then overwrite_scan ow rest
                    (changes @ [10060 # perm], add_mask, remove_mask OR f, reset_mask)
             else overwrite_scan ow rest (changes, add_mask, remove_mask, reset_mask))
      else if sign = lit ''/'' then
        (case a of NotFlag \<Rightarrow> Inl AttributeError
         | Flag f \<Rightarrow>
             if fst ow AND f \<noteq> 0 \<or> snd ow AND f \<noteq> 0
             then overwrite_scan ow rest
                    (changes @ [128307 # perm], add_mask, remove_mask, reset_mask OR f)
             else overwrite_scan ow rest (changes, add_mask, remove_mask, reset_mask))
      else overwrite_scan ow rest (changes, add_mask, remove_mask, reset_mask))"

definition overwrites_for :: "channel \<Rightarrow> target \<Rightarrow> overwrite" where
  "overwrites_for channel target =
     (case find (\<lambda>(t, overwrite). target_id t = target_id target) (overwrites channel) of
        Some (t, overwrite) \<Rightarrow> overwrite
      | None \<Rightarrow> (0, 0))"

subsection \<open>Resolving the names of a row\<close>

definition lookup_category :: "(pystr \<times> channel) list \<Rightarrow> pystr \<Rightarrow> error + channel" where
  "lookup_category chans name =
     (case dict_get chans name of
        None \<Rightarrow> Inl (UnknownChannel name)
      | Some c \<Rightarrow> if \<not> is_category c then Inl (NotACategory name) else Inr c)"

text \<open>The category and the channel a channel row names.\<close>

definition resolve_channel :: "(pystr \<times> channel) list \<Rightarrow> pystr list
    \<Rightarrow> error + (channel option \<times> channel)" where
  "resolve_channel chans row =
     (if row ! 1 = [] then
        and_then (lookup_category chans (row ! 0)) (\<lambda>c. Inr (None, c))
      else
        and_then (if row ! 0 = [] then Inr None
                  else and_then (lookup_category chans (row ! 0)) (\<lambda>cat. Inr (Some cat)))
          (\<lambda>category.
             case dict_get chans (row ! 1) of
               None \<Rightarrow> Inl (UnknownChannel (row ! 1))
             | Some c \<Rightarrow> if is_category c then Inl (IsACategory (row ! 1)) else Inr (category, c)))"

definition resolve_target :: "py_env \<Rightarrow> guild \<Rightarrow> (pystr \<times> role) list \<Rightarrow> pystr
    \<Rightarrow> error + target" where
  "resolve_target E g rls t =
     (if startswith t (lit ''Role '') then
        (let role_name = removeprefix t (lit ''Role '') in
         case dict_get rls role_name of
           None \<Rightarrow> Inl (UnknownRole role_name)
         | Some r \<Rightarrow> Inr (TRole r))
      else if startswith t (lit ''User '') then
        (case first_token (removeprefix t (lit ''User '')) of
           None \<Rightarrow> Inl IndexError
         | Some tok \<Rightarrow>
             (case py_int E tok of
                None \<Rightarrow> Inl ExpectedUserID
              | Some user_id \<Rightarrow>
                  (case get_member g user_id of
                     None \<Rightarrow> Inl (NoSuchMember user_id)
                   | Some m \<Rightarrow> Inr (TMember m))))
      else Inl ExpectedRoleOrUser)"

subsection \<open>One row\<close>

definition role_row :: "(pystr \<times> role) list \<Rightarrow> (attr \<times> pystr) list \<Rightarrow> import_state
    \<Rightarrow> pystr list \<Rightarrow> error + import_state" where
  "role_row rls flags st row =
     (if \<not> startswith (row ! 2) (lit ''Role '') then Inl ExpectedRole
      else
        (let role_name = removeprefix (row ! 2) (lit ''Role '') in
         case dict_get rls role_name of
           None \<Rightarrow> Inl (UnknownRole role_name)
         | Some r \<Rightarrow>
             and_then (role_scan (role_permissions r) (zip flags (drop 3 row)) ([], 0, 0))
               (\<lambda>(changes, add_mask, remove_mask).
                  Inr (st\<lparr>out_notes := out_notes st @
                            (if changes \<noteq> []
                             then [fmt_target (TRole r) @ lit '': '' @ join_comma changes]
                             else []),
                          actions := actions st @
                            (if add_mask \<noteq> 0 \<or> remove_mask \<noteq> 0
                             then [EditRolePermissions r add_mask remove_mask]
                             else [])\<rparr>))))"

text \<open>
  The move of a channel whose category differs from the row's. Formatting the note with
  \<open>{!c}\<close> of \<open>None\<close> raises ValueError, so a move out of every category fails.
\<close>

definition move_channel :: "guild \<Rightarrow> import_state \<Rightarrow> channel \<Rightarrow> channel option
    \<Rightarrow> error + import_state" where
  "move_channel g st channel category =
     (if \<not> is_category channel \<and> chan_category g channel \<noteq> category
         \<and> channel \<notin> fst ` set (seen_moved st)
      then (case category of
              None \<Rightarrow> Inl ValueError
            | Some cat \<Rightarrow>
                Inr (st\<lparr>seen_moved := seen_moved st @ [(channel, category)],
                        out_notes := out_notes st @
                          [lit ''Move '' @ fmt_c channel @ lit '' to '' @ fmt_c cat],
                        actions := actions st @ [EditCategory channel category]\<rparr>))
      else Inr st)"

text \<open>\<open>new_overwrites[channel]\<close> of the \<open>defaultdict\<close>: the dictionary of the channel.\<close>

definition overwrites_of :: "import_state \<Rightarrow> channel \<Rightarrow> (target \<times> masks) list" where
  "overwrites_of st channel = (case map_of (new_overwrites st) channel of None \<Rightarrow> [] | Some d \<Rightarrow> d)"

definition target_row :: "py_env \<Rightarrow> guild \<Rightarrow> (pystr \<times> role) list \<Rightarrow> (attr \<times> pystr) list
    \<Rightarrow> import_state \<Rightarrow> channel \<Rightarrow> pystr list \<Rightarrow> error + import_state" where
  "target_row E g rls flags st channel row =
     and_then (resolve_target E g rls (row ! 2))
       (\<lambda>target.
          and_then (overwrite_scan (overwrites_for channel target) (zip flags (drop 3 row))
                      ([], 0, 0, 0))
            (\<lambda>(changes, ms).
               Inr (st\<lparr>out_notes := out_notes st @
                         (if changes \<noteq> []
                          then [fmt_c channel @ lit '' '' @ fmt_target target @ lit '': ''
                                @ join_comma changes]
                          else []),
                       new_overwrites :=
                         AList.update channel (AList.update target ms (overwrites_of st channel))
                           (new_overwrites st)\<rparr>)))"

definition channel_row :: "py_env \<Rightarrow> guild \<Rightarrow> (pystr \<times> channel) list \<Rightarrow> (pystr \<times> role) list
    \<Rightarrow> (attr \<times> pystr) list \<Rightarrow> import_state \<Rightarrow> pystr list \<Rightarrow> error + import_state" where
  "channel_row E g chans rls flags st row =
     and_then (resolve_channel chans row)
       (\<lambda>(category, channel).
          and_then (move_channel g (st\<lparr>channel_var := Some channel\<rparr>) channel category)
            (\<lambda>st'.
               if row ! 2 = lit ''(synced)'' \<and> \<not> is_category channel
               then Inr (st'\<lparr>want_sync := set_add channel (want_sync st')\<rparr>)
               else if row ! 2 \<noteq> []
               then target_row E g rls flags st' channel row
               else Inr (st'\<lparr>new_overwrites :=
                           AList.update channel (overwrites_of st' channel) (new_overwrites st')\<rparr>)))"

definition process_row :: "py_env \<Rightarrow> guild \<Rightarrow> (pystr \<times> channel) list \<Rightarrow> (pystr \<times> role) list
    \<Rightarrow> (attr \<times> pystr) list \<Rightarrow> import_state \<Rightarrow> pystr list \<Rightarrow> error + import_state" where
  "process_row E g chans rls flags st row =
     (if length row < 3 then Inl InvalidRow
      else if row ! 0 = [] \<and> row ! 1 = [] then role_row rls flags st row
      else channel_row E g chans rls flags st row)"

fun process_rows :: "py_env \<Rightarrow> guild \<Rightarrow> (pystr \<times> channel) list \<Rightarrow> (pystr \<times> role) list
    \<Rightarrow> (attr \<times> pystr) list \<Rightarrow> import_state \<Rightarrow> pystr list list \<Rightarrow> error + import_state" where
  "process_rows E g chans rls flags st [] = Inr st"
| "process_rows E g chans rls flags st (row # rows) =
     and_then (process_row E g chans rls flags st row)
       (\<lambda>st'. process_rows E g chans rls flags st' rows)"

subsection \<open>The second pass\<close>

text \<open>
  The loop over \<open>new_overwrites\<close>. Its first test reads the variable \<open>channel\<close>, which
  holds the channel of the last channel row, or of the last turn of this loop that went
  past the test.
\<close>

fun overwrites_pass :: "(channel \<times> (target \<times> masks) list) list \<Rightarrow> import_state
    \<Rightarrow> error + import_state" where
  "overwrites_pass [] st = Inr st"
| "overwrites_pass ((chan, d) # rest) st =
     (case channel_var st of
        None \<Rightarrow> Inl UnboundLocalError
      | Some channel \<Rightarrow>
          if channel \<in> set (want_sync st) then overwrites_pass rest st
          else
            (let removed = filter (\<lambda>t. t \<notin> fst ` set d) (map fst (overwrites chan)) in
             overwrites_pass rest
               (st\<lparr>channel_var := Some chan,
                   overwrites_changed :=
                     (if list_ex (\<lambda>(t, a, r, z). a \<noteq> 0 \<or> r \<noteq> 0 \<or> z \<noteq> 0) d \<or> removed \<noteq> []
                      then set_add chan (overwrites_changed st) else overwrites_changed st),
                   out_notes := out_notes st @
                     map (\<lambda>t. fmt_c chan @ lit '' remove '' @ fmt_target t) removed,
                   actions := actions st @ [EditOverwrites chan d]\<rparr>)))"

text \<open>The loop over \<open>want_sync\<close>.\<close>

definition new_category :: "guild \<Rightarrow> import_state \<Rightarrow> channel \<Rightarrow> channel option" where
  "new_category g st chan =
     (case map_of (seen_moved st) chan of Some c \<Rightarrow> c | None \<Rightarrow> chan_category g chan)"

definition sync_wanted :: "guild \<Rightarrow> import_state \<Rightarrow> channel \<Rightarrow> channel \<Rightarrow> bool" where
  "sync_wanted g st chan cat =
     (\<not> permissions_synced g chan \<or> chan \<in> fst ` set (seen_moved st)
      \<or> cat \<in> set (overwrites_changed st))"

fun sync_pass :: "guild \<Rightarrow> channel list \<Rightarrow> import_state \<Rightarrow> error + import_state" where
  "sync_pass g [] st = Inr st"
| "sync_pass g (chan # rest) st =
     (case new_category g st chan of
        None \<Rightarrow> Inl (NoCategoryForSync chan)
      | Some cat \<Rightarrow>
          if sync_wanted g st chan cat
          then sync_pass g rest
                 (st\<lparr>channel_var := Some chan,
                     out_notes := out_notes st @
                       [lit ''Sync '' @ fmt_c chan @ lit '' with '' @ fmt_c cat],
                     actions := actions st @ [EditSyncPermissions chan]\<rparr>)
          else sync_pass g rest (st\<lparr>channel_var := Some chan\<rparr>))"

subsection \<open>The command\<close>

text \<open>
  The order in which the loop over the set \<open>want_sync\<close> visits it: the order of the
  interpreter, which is some arrangement of the set.
\<close>

definition iter_order :: "py_env \<Rightarrow> channel list \<Rightarrow> channel list" where
  "iter_order E ws =
     (let order = set_iter E ws in if distinct order \<and> set order = set ws then order else ws)"

definition importperms :: "py_env \<Rightarrow> perm_class \<Rightarrow> guild \<Rightarrow> pystr list list
    \<Rightarrow> error + import_state" where
  "importperms E P g rows =
     (case channels_dict g of
        None \<Rightarrow> Inl ValueError
      | Some chans \<Rightarrow>
          (case rows of
             [] \<Rightarrow> Inl RuntimeError
           | header # data \<Rightarrow>
               and_then (parse_header P header)
                 (\<lambda>flags.
                    and_then (process_rows E g chans (roles_dict g) flags initial_state data)
                      (\<lambda>st. and_then (overwrites_pass (new_overwrites st) st)
                         (\<lambda>st'. sync_pass g (iter_order E (want_sync st')) st')))))"

text \<open>What the command sends before it asks for confirmation.\<close>

definition report :: "import_state \<Rightarrow> pystr list" where
  "report st = (if out_notes st = [] then [lit ''No changes.''] else render (out_notes st))"

section \<open>The export\<close>

text \<open>
  \<open>exportperms\<close> as the list of rows it hands to \<open>csv.writer\<close>, in order; the text of the
  file and its way back into rows belong to the \<open>csv\<close> module.
\<close>

definition header_row :: "perm_class \<Rightarrow> pystr list" where
  "header_row P =
     [lit ''Category'', lit ''Channel'', lit ''Role/User''] @ map fst (iter_Permissions P 0)"

definition export_role_row :: "perm_class \<Rightarrow> role \<Rightarrow> pystr list" where
  "export_role_row P r =
     [[], [], lit ''Role '' @ role_name r]
     @ map (\<lambda>(n, v). if v then lit ''+'' else lit ''-'') (iter_Permissions P (role_permissions r))"

definition target_name :: "target \<Rightarrow> pystr" where
  "target_name t =
     (case t of
        TRole r \<Rightarrow> lit ''Role '' @ role_name r
      | TMember m \<Rightarrow> lit ''User '' @ show_int (member_id m) @ lit '' '' @ member_name m)"

definition overwrite_signs :: "perm_class \<Rightarrow> overwrite \<Rightarrow> pystr list" where
  "overwrite_signs P ow =
     map (\<lambda>((flag, allow), (n, deny)). if allow then lit ''+'' else if deny then lit ''-'' else lit ''/'')
       (zip (iter_Permissions P (fst ow)) (iter_Permissions P (snd ow)))"

definition channel_header :: "guild \<Rightarrow> channel \<Rightarrow> pystr list option" where
  "channel_header g c =
     (if is_category c then map_option (\<lambda>n. [n, []]) (disambiguated_name g c)
      else
        (case chan_category g c of
           None \<Rightarrow> map_option (\<lambda>n. [[], n]) (disambiguated_name g c)
         | Some cat \<Rightarrow>
             (case disambiguated_name g cat of
                None \<Rightarrow> None
              | Some cn \<Rightarrow> map_option (\<lambda>n. [cn, n]) (disambiguated_name g c))))"

definition export_channel_rows :: "perm_class \<Rightarrow> guild \<Rightarrow> channel \<Rightarrow> pystr list list option" where
  "export_channel_rows P g c =
     map_option
       (\<lambda>header.
          (header @ [if permissions_synced g c then lit ''(synced)'' else []])
          # (if permissions_synced g c then []
             else map (\<lambda>(target, ow). header @ [target_name target] @ overwrite_signs P ow)
                    (sorted_overwrites g c)))
       (channel_header g c)"

definition exportperms :: "perm_class \<Rightarrow> guild \<Rightarrow> error + pystr list list" where
  "exportperms P g =
     (case those (map (export_channel_rows P g) (sort_key (channel_sort_key g) (channels g))) of
        None \<Rightarrow> Inl ValueError
      | Some rs \<Rightarrow> Inr (header_row P # map (export_role_row P) (roles g) @ concat rs))"

text \<open>A guild with one role, one member, a category and two channels under it.\<close>

definition cat_town :: channel where
  "cat_town = category_channel (lit ''town'') 10 [(TRole role_mod, (1024, 0))]"

definition chan_square :: channel where
  "chan_square = text_channel (lit ''square'') 11 (Some 10) [(TRole role_mod, (1024, 0))]"

definition chan_market :: channel where
  "chan_market =
     text_channel (lit ''market'') 12 (Some 10)
       [(TRole role_mod, (1024, 2048)), (TMember member_ann, (0, 1024))]"

definition guild_town :: guild where
  "guild_town = \<lparr>roles = [role_mod], channels = [chan_market, cat_town, chan_square],
     members = [member_ann]\<rparr>"

text \<open>A header whose fourth column names a class method of the permission class.\<close>

definition header_none :: "pystr list" where
  "header_none = [lit ''Category'', lit ''Channel'', lit ''Role/User'', lit ''none'']"

text \<open>
  What puts a channel into \<open>overwrites_changed\<close>: one of its stored masks is not zero, or a
  live overwrite target of the channel is absent from its dictionary.
\<close>

definition masks_changed :: "channel \<Rightarrow> (target \<times> masks) list \<Rightarrow> bool" where
  "masks_changed c d =
     (list_ex (\<lambda>(t, a, r, z). a \<noteq> 0 \<or> r \<noteq> 0 \<or> z \<noteq> 0) d
      \<or> list_ex (\<lambda>t. t \<notin> fst ` set d) (map fst (overwrites c)))"

text \<open>Rows for the town guild that change nothing, and what the header and the guild resolve to.\<close>

definition rows_town_unchanged :: "pystr list list" where
  "rows_town_unchanged =
     [header_row demo_perms,
      [lit ''town'', [], []],
      [lit ''town'', [], lit ''Role mod'', lit ''/'', lit ''/'', lit ''+'', lit ''/'']]"

definition demo_flags :: "(attr \<times> pystr) list" where
  "demo_flags = [(Flag 2, lit ''kick_members''), (Flag 4, lit ''ban_members''),
                 (Flag 1024, lit ''read_messages''), (Flag 2048, lit ''send_messages'')]"

definition town_chans :: "(pystr \<times> channel) list" where
  "town_chans = [(lit ''market'', chan_market), (lit ''town'', cat_town), (lit ''square'', chan_square)]"

section \<open>Well-formed guilds\<close>

text \<open>
  What the round trip needs of the permission class: the names of the flags are distinct.
\<close>

definition wf_perms :: "perm_class \<Rightarrow> bool" where
  "wf_perms P = distinct (map fst (flag_order P))"

text \<open>
  What the round trip needs of a guild. The library sees to the identifiers being distinct,
  to categories having no category, to the category of a channel being a category and to
  overwrite targets being roles and members of the guild; the platform sees to names not
  being empty. That role names and channel labels are distinct is a restriction.
\<close>

definition wf_target :: "guild \<Rightarrow> target \<Rightarrow> bool" where
  "wf_target g t = (case t of TRole r \<Rightarrow> r \<in> set (roles g) | TMember m \<Rightarrow> m \<in> set (members g))"

definition wf_channel :: "guild \<Rightarrow> channel \<Rightarrow> bool" where
  "wf_channel g c =
     (chan_name c \<noteq> []
      \<and> (is_category c \<longrightarrow> category_id c = None)
      \<and> (case chan_category g c of None \<Rightarrow> True | Some cat \<Rightarrow> is_category cat)
      \<and> distinct (map (\<lambda>p. target_id (fst p)) (overwrites c))
      \<and> list_all (\<lambda>p. wf_target g (fst p)) (overwrites c))"

definition wf_guild :: "guild \<Rightarrow> bool" where
  "wf_guild g =
     (distinct (map chan_id (channels g))
      \<and> distinct (map (occurrence_label g) (channels g))
      \<and> distinct (map role_name (roles g))
      \<and> distinct (map member_id (members g))
      \<and> list_all (wf_channel g) (channels g))"

text \<open>The flags the import reads from an exported header.\<close>

definition import_flags :: "perm_class \<Rightarrow> (attr \<times> pystr) list" where
  "import_flags P = map (\<lambda>(n, k). (Flag (2 ^ k), n)) (flag_order P)"

text \<open>The dictionary of channels of a guild with distinct identifiers, and the header cells of a channel.\<close>

definition label_dict :: "guild \<Rightarrow> (pystr \<times> channel) list" where
  "label_dict g = map (\<lambda>c. (occurrence_label g c, c)) (channels g)"

definition header_cells :: "guild \<Rightarrow> channel \<Rightarrow> pystr list" where
  "header_cells g c =
     (if is_category c then [occurrence_label g c, []]
      else (case chan_category g c of
              None \<Rightarrow> [[], occurrence_label g c]
            | Some cat \<Rightarrow> [occurrence_label g cat, occurrence_label g c]))"

text \<open>
  The invariant of the first pass over exported rows: nothing is noted, scheduled, moved or
  changed; the stored masks are all zero; every touched channel other than the one whose
  rows are being read (\<open>cur\<close>) has all its live targets in its dictionary; the channels
  marked synced are synced; and the variable \<open>channel\<close> is bound once a channel is touched.
\<close>

definition roundtrip_inv :: "guild \<Rightarrow> channel option \<Rightarrow> import_state \<Rightarrow> bool" where
  "roundtrip_inv g cur st =
     (out_notes st = [] \<and> actions st = [] \<and> seen_moved st = [] \<and> overwrites_changed st = []
      \<and> distinct (map fst (new_overwrites st))
      \<and> list_all (\<lambda>(c, d). list_all (\<lambda>p. snd p = (0, 0, 0)) d
                     \<and> (Some c \<noteq> cur \<longrightarrow> list_all (\<lambda>t. t \<in> fst ` set d) (map fst (overwrites c))))
           (new_overwrites st)
      \<and> list_all (permissions_synced g) (want_sync st)
      \<and> (new_overwrites st \<noteq> [] \<longrightarrow> channel_var st \<noteq> None))"

text \<open>
  An overwrite edit that changes nothing: all its masks are zero and every live overwrite
  target of the channel is in its dictionary.
\<close>

definition is_noop_edit :: "action \<Rightarrow> bool" where
  "is_noop_edit a =
     (case a of
        EditOverwrites c d \<Rightarrow>
          list_all (\<lambda>p. snd p = (0, 0, 0)) d
          \<and> list_all (\<lambda>t. t \<in> fst ` set d) (map fst (overwrites c))
      | _ \<Rightarrow> False)"

text \<open>
  What the round trip needs of the interpreter: the identifier of every member that is an
  overwrite target has no more digits than \<open>int\<close> reads back.
\<close>

definition readable_target :: "py_env \<Rightarrow> target \<Rightarrow> bool" where
  "readable_target E t =
     (case t of
        TRole r \<Rightarrow> True
      | TMember m \<Rightarrow> digits_allowed E (length (show_nat (nat \<bar>member_id m\<bar>))))"

definition ids_readable :: "py_env \<Rightarrow> guild \<Rightarrow> bool" where
  "ids_readable E g =
     list_all (\<lambda>c. list_all (\<lambda>p. readable_target E (fst p)) (overwrites c)) (channels g)"

text \<open>
  An interpreter for concrete evaluations: the fullwidth and the Arabic-Indic digits as
  decimal digits beyond ASCII, the default limit, and sets iterated in the reverse of the
  order of insertion.
\<close>

definition demo_env :: py_env where
  "demo_env = \<lparr>
     unicode_decimal = (\<lambda>c. if 65296 \<le> c \<and> c \<le> 65305 then Some (c - 65296)
                            else if 1632 \<le> c \<and> c \<le> 1641 then Some (c - 1632) else None),
     max_str_digits = 4300,
     set_iter = rev\<rparr>"

text \<open>
  A target without a rank: a member, or a role that is not in the guild's role list.
\<close>

definition unranked :: "guild \<Rightarrow> target \<Rightarrow> bool" where
  "unranked g t = (case t of TRole r \<Rightarrow> index (roles g) r = None | TMember m \<Rightarrow> True)"

text \<open>A channel with an overwrite for a role that is not in the guild's role list.\<close>

definition role_gone :: role where
  "role_gone = \<lparr>role_id = 2, role_name = lit ''gone'', role_permissions = 0\<rparr>"

definition chan_three_targets :: channel where
  "chan_three_targets =
     text_channel (lit ''general'') 100 None
       [(TRole role_mod, (0, 0)), (TRole role_gone, (0, 0)), (TMember member_ann, (0, 0))]"

definition guild_role_gone :: guild where
  "guild_role_gone = \<lparr>roles = [role_mod], channels = [chan_three_targets], members = [member_ann]\<rparr>"

section \<open>Results on the mask arithmetic\<close>

text \<open>
  C2. The claim gives \<open>newDeny = (oldDeny & ~reset & ~add) | remove\<close>. The code never
  clears an old deny bit on an add: on an overwrite that denies \<open>read_messages\<close>
  (bit 10, value 1024) and allows nothing, adding \<open>read_messages\<close> leaves the flag
  denied and not allowed, where the claimed arithmetic allows it.
\<close>

theorem tweak_overwrite_add_keeps_deny:
  "tweak_overwrite demo_perms (0, 1024) 1024 0 0 = (0, 1024)
   \<and> tweak_spec (0, 1024) 1024 0 0 = (1024, 0)"
  by (simp add: tweak_overwrite_def tweak_spec_def tweak_permissions_def from_pair_def
      perm_of_def demo_perms_def)

text \<open>
  The two examples of the specification hold: resetting \<open>read_messages\<close> on an overwrite
  that allows it leaves nothing allowed or denied, and adding \<open>send_messages\<close> to it
  allows both flags.
\<close>

lemma tweak_overwrite_examples:
  "tweak_overwrite demo_perms (1024, 0) 0 0 1024 = (0, 0)
   \<and> tweak_overwrite demo_perms (1024, 0) 2048 0 0 = (3072, 0)"
  by (simp add: tweak_overwrite_def tweak_permissions_def from_pair_def perm_of_def demo_perms_def)

section \<open>Disambiguated names\<close>

lemma index_sorted_distinct:
  fixes xs :: "int list"
  shows "sorted xs \<Longrightarrow> distinct xs \<Longrightarrow> x \<in> set xs \<Longrightarrow>
    index xs x = Some (length (filter (\<lambda>y. y < x) xs))"
proof (induction xs)
  case Nil
  then show ?case by simp
next
  case (Cons y ys)
  show ?case
  proof (cases "y = x")
    case True
    with Cons.prems have "\<forall>z\<in>set ys. \<not> z < x" by auto
    then have "filter (\<lambda>z. z < x) ys = []" by (simp add: filter_empty_conv)
    with True show ?thesis by simp
  next
    case False
    with Cons.prems have "x \<in> set ys" "y < x" by auto
    with Cons False show ?thesis by simp
  qed
qed

lemma length_filter_sort_key:
  "length (filter P (map f (sort_key f xs))) = length (filter (\<lambda>x. P (f x)) xs)"
proof -
  have "mset (filter (\<lambda>x. P (f x)) (sort_key f xs)) = mset (filter (\<lambda>x. P (f x)) xs)"
    by (simp only: mset_filter mset_sort)
  then have "length (filter (\<lambda>x. P (f x)) (sort_key f xs)) = length (filter (\<lambda>x. P (f x)) xs)"
    by (rule mset_eq_length)
  then show ?thesis by (simp add: filter_map comp_def)
qed

lemma index_sort_key:
  assumes "distinct (map chan_id cs)" "c \<in> set cs"
  shows "index (map chan_id (sort_key chan_id cs)) (chan_id c)
         = Some (length (filter (\<lambda>x. chan_id x < chan_id c) cs))"
proof -
  let ?ys = "map chan_id (sort_key chan_id cs)"
  have "sorted ?ys" by simp
  moreover have "distinct ?ys" using assms(1) by (simp add: distinct_map)
  moreover have "chan_id c \<in> set ?ys" using assms(2) by simp
  ultimately have "index ?ys (chan_id c) = Some (length (filter (\<lambda>y. y < chan_id c) ?ys))"
    by (rule index_sorted_distinct)
  then show ?thesis by (simp only: length_filter_sort_key)
qed

lemma disambiguated_name_label:
  assumes "distinct (map chan_id (channels g))" "c \<in> set (channels g)"
  shows "disambiguated_name g c = Some (occurrence_label g c)"
proof -
  let ?cs = "filter (\<lambda>chan. chan_name chan = chan_name c) (channels g)"
  have "distinct (map chan_id ?cs)" using assms(1) by (simp add: distinct_map_filter)
  moreover have "c \<in> set ?cs" using assms(2) by simp
  ultimately have "index (map chan_id (sort_key chan_id ?cs)) (chan_id c)
         = Some (length (filter (\<lambda>x. chan_id x < chan_id c) ?cs))"
    by (rule index_sort_key)
  then show ?thesis
    by (simp add: disambiguated_name_def occurrence_label_def Let_def)
qed

lemma those_map_Some:
  "(\<And>x. x \<in> set xs \<Longrightarrow> f x = Some (h x)) \<Longrightarrow> those (map f xs) = Some (map h xs)"
  by (induction xs) auto

lemma dict_get_SomeD:
  "dict_get (map (\<lambda>y. (f y, y)) xs) k = Some y \<Longrightarrow> y \<in> set xs \<and> f y = k"
  unfolding dict_get_def by (drule map_of_SomeD) auto

lemma dict_get_unique:
  assumes "x \<in> set xs" "\<forall>y\<in>set xs. f y = f x \<longrightarrow> y = x"
  shows "dict_get (map (\<lambda>y. (f y, y)) xs) (f x) = Some x"
proof (cases "dict_get (map (\<lambda>y. (f y, y)) xs) (f x)")
  case None
  then have "map_of (rev (map (\<lambda>y. (f y, y)) xs)) (f x) = None"
    by (simp add: dict_get_def)
  then have "f x \<notin> f ` set xs"
    by (simp add: map_of_eq_None_iff image_comp comp_def)
  with assms(1) show ?thesis by blast
next
  case (Some y)
  with dict_get_SomeD [OF Some] assms(2) show ?thesis by simp
qed

lemma channels_dict_Some:
  assumes "distinct (map chan_id (channels g))"
  shows "channels_dict g = Some (map (\<lambda>c. (occurrence_label g c, c)) (channels g))"
  unfolding channels_dict_def
  by (rule those_map_Some) (simp add: disambiguated_name_label [OF assms])

text \<open>
  C6 (amended). In a guild whose channel identifiers are distinct, the label of every
  channel is the one the specification describes: the bare name when the name is unique,
  otherwise the name with its 1-based occurrence index in identifier order. The import's
  dictionary is built from the same labels, and a label resolves back to its channel
  whenever no other channel of the guild carries the same label.
\<close>

theorem disambiguated_name_resolves:
  assumes "distinct (map chan_id (channels g))" and "c \<in> set (channels g)"
  shows "disambiguated_name g c = Some (occurrence_label g c) \<and>
         (\<exists>d. channels_dict g = Some d \<and>
            ((\<forall>c'\<in>set (channels g). occurrence_label g c' = occurrence_label g c \<longrightarrow> c' = c)
               \<longrightarrow> dict_get d (occurrence_label g c) = Some c))"
proof -
  have "(\<forall>c'\<in>set (channels g). occurrence_label g c' = occurrence_label g c \<longrightarrow> c' = c)
        \<longrightarrow> dict_get (map (\<lambda>c. (occurrence_label g c, c)) (channels g)) (occurrence_label g c) = Some c"
    using assms(2) by (auto intro: dict_get_unique)
  with channels_dict_Some [OF assms(1)] disambiguated_name_label [OF assms]
  show ?thesis by simp
qed

theorem disambiguated_name_resolves_witness:
  "distinct (map chan_id (channels guild_two_general))
   \<and> text_channel (lit ''general'') 100 None [] \<in> set (channels guild_two_general)
   \<and> filter (\<lambda>c'. occurrence_label guild_two_general c'
           = occurrence_label guild_two_general (text_channel (lit ''general'') 100 None []))
        (channels guild_two_general) = [text_channel (lit ''general'') 100 None []]
   \<and> disambiguated_name guild_two_general (text_channel (lit ''general'') 100 None [])
       = Some (lit ''general (1)'')
   \<and> disambiguated_name guild_two_general (text_channel (lit ''general'') 200 None [])
       = Some (lit ''general (2)'')
   \<and> disambiguated_name guild_two_general (text_channel (lit ''rules'') 300 None [])
       = Some (lit ''rules'')
   \<and> (\<exists>d. channels_dict guild_two_general = Some d
          \<and> dict_get d (lit ''general (1)'') = Some (text_channel (lit ''general'') 100 None []))"
  using disambiguated_name_resolves
    [of guild_two_general "text_channel (lit ''general'') 100 None []"]
  by (simp add: guild_two_general_def text_channel_def occurrence_label_def
      disambiguated_name_def show_nat.simps)

text \<open>
  C6 as claimed fails when a third channel is literally named like an indexed label: the
  label of channel 100 then resolves to channel 300.
\<close>

theorem disambiguated_name_label_clash:
  "disambiguated_name guild_label_clash (text_channel (lit ''general'') 100 None [])
     = Some (lit ''general (1)'')
   \<and> channels_dict guild_label_clash
       = Some [(lit ''general (1)'', text_channel (lit ''general'') 100 None []),
               (lit ''general (2)'', text_channel (lit ''general'') 200 None []),
               (lit ''general (1)'', text_channel (lit ''general (1)'') 300 None [])]
   \<and> dict_get [(lit ''general (1)'', text_channel (lit ''general'') 100 None []),
                 (lit ''general (2)'', text_channel (lit ''general'') 200 None []),
                 (lit ''general (1)'', text_channel (lit ''general (1)'') 300 None [])]
         (lit ''general (1)'')
       = Some (text_channel (lit ''general (1)'') 300 None [])"
  by (simp add: guild_label_clash_def text_channel_def channels_dict_def dict_get_def
      disambiguated_name_def show_nat.simps)

section \<open>Order of the overwrite rows\<close>

lemma overwrite_sort_key_unranked: "unranked g (fst p) \<Longrightarrow> overwrite_sort_key g p = -1"
  by (cases "fst p") (simp_all add: overwrite_sort_key_def unranked_def)

lemma overwrite_sort_key_ranked:
  "fst p = TRole r \<Longrightarrow> index (roles g) r = Some n \<Longrightarrow> overwrite_sort_key g p = int n"
  by (simp add: overwrite_sort_key_def)

text \<open>
  C4 (amended). The overwrite rows of a channel are its overwrites, sorted by ascending
  key, targets with the same key staying in the order of the channel's overwrites. The key
  of a role found in the guild's role list is its index there; every other target, a
  member or a role that is not found in the list, has key -1. So every member target and
  every role target that is not found comes before every role target that is found in the
  role list, and the roles that are found come in the order of the role list.
\<close>

theorem sorted_overwrites_order:
  "sorted (map (overwrite_sort_key g) (sorted_overwrites g c))
   \<and> mset (sorted_overwrites g c) = mset (overwrites c)
   \<and> (\<forall>k. filter (\<lambda>p. overwrite_sort_key g p = k) (sorted_overwrites g c)
           = filter (\<lambda>p. overwrite_sort_key g p = k) (overwrites c))
   \<and> (\<forall>p. unranked g (fst p) \<longrightarrow> overwrite_sort_key g p = -1)
   \<and> (\<forall>p r n. fst p = TRole r \<and> index (roles g) r = Some n \<longrightarrow> overwrite_sort_key g p = int n)
   \<and> (\<forall>i j n r. i < length (sorted_overwrites g c) \<and> j < length (sorted_overwrites g c)
         \<and> unranked g (fst (sorted_overwrites g c ! i))
         \<and> fst (sorted_overwrites g c ! j) = TRole r
         \<and> index (roles g) r = Some n
        \<longrightarrow> i < j)
   \<and> (\<forall>i j n n' r r'. i < length (sorted_overwrites g c) \<and> j < length (sorted_overwrites g c)
         \<and> fst (sorted_overwrites g c ! i) = TRole r \<and> index (roles g) r = Some n
         \<and> fst (sorted_overwrites g c ! j) = TRole r' \<and> index (roles g) r' = Some n'
         \<and> n < n'
        \<longrightarrow> i < j)"
proof -
  let ?xs = "sorted_overwrites g c"
  let ?key = "overwrite_sort_key g"
  have srt: "sorted (map ?key ?xs)"
    by (simp add: sorted_overwrites_def)
  have ms: "mset ?xs = mset (overwrites c)"
    by (simp add: sorted_overwrites_def)
  have stable: "filter (\<lambda>p. ?key p = k) ?xs = filter (\<lambda>p. ?key p = k) (overwrites c)" for k
    unfolding sorted_overwrites_def by (rule sort_key_stable)
  have before: "i < j"
    if h: "i < length ?xs" "j < length ?xs" "?key (?xs ! i) < ?key (?xs ! j)" for i j
  proof (rule ccontr)
    assume "\<not> i < j"
    then have "j \<le> i" by simp
    with srt h(1) have "map ?key ?xs ! j \<le> map ?key ?xs ! i"
      by (simp add: sorted_iff_nth_mono del: nth_map)
    with h show False by simp
  qed
  have a: "i < j"
    if h: "i < length ?xs" "j < length ?xs" "unranked g (fst (?xs ! i))"
       "fst (?xs ! j) = TRole r" "index (roles g) r = Some n" for i j n r
  proof -
    have "?key (?xs ! i) = -1" using h(3) by (rule overwrite_sort_key_unranked)
    moreover have "?key (?xs ! j) = int n" using h(4,5) by (rule overwrite_sort_key_ranked)
    ultimately have "?key (?xs ! i) < ?key (?xs ! j)" by simp
    with h(1,2) show ?thesis by (rule before)
  qed
  have b: "i < j"
    if h: "i < length ?xs" "j < length ?xs" "fst (?xs ! i) = TRole r" "index (roles g) r = Some n"
       "fst (?xs ! j) = TRole r'" "index (roles g) r' = Some n'" "n < n'" for i j n n' r r'
  proof -
    have "?key (?xs ! i) = int n" using h(3,4) by (rule overwrite_sort_key_ranked)
    moreover have "?key (?xs ! j) = int n'" using h(5,6) by (rule overwrite_sort_key_ranked)
    ultimately have "?key (?xs ! i) < ?key (?xs ! j)" using h(7) by simp
    with h(1,2) show ?thesis by (rule before)
  qed
  have u: "\<forall>p. unranked g (fst p) \<longrightarrow> ?key p = -1"
    by (simp add: overwrite_sort_key_unranked)
  have r: "\<forall>p r n. fst p = TRole r \<and> index (roles g) r = Some n \<longrightarrow> ?key p = int n"
    by (simp add: overwrite_sort_key_ranked)
  from a have a': "\<forall>i j n r. i < length ?xs \<and> j < length ?xs \<and> unranked g (fst (?xs ! i))
         \<and> fst (?xs ! j) = TRole r \<and> index (roles g) r = Some n \<longrightarrow> i < j" by blast
  from b have b': "\<forall>i j n n' r r'. i < length ?xs \<and> j < length ?xs
         \<and> fst (?xs ! i) = TRole r \<and> index (roles g) r = Some n
         \<and> fst (?xs ! j) = TRole r' \<and> index (roles g) r' = Some n' \<and> n < n' \<longrightarrow> i < j" by blast
  from stable have s': "\<forall>k. filter (\<lambda>p. ?key p = k) ?xs = filter (\<lambda>p. ?key p = k) (overwrites c)"
    by blast
  from srt ms s' u r a' b' show ?thesis by (intro conjI)
qed

lemma sorted_overwrites_three:
  "sorted_overwrites guild_role_gone chan_three_targets
   = [(TRole role_gone, (0, 0)), (TMember member_ann, (0, 0)), (TRole role_mod, (0, 0))]"
  by (simp add: sorted_overwrites_def guild_role_gone_def chan_three_targets_def
      text_channel_def role_mod_def role_gone_def overwrite_sort_key_def)

theorem sorted_overwrites_order_witness:
  "(0::nat) < length (sorted_overwrites guild_role_gone chan_three_targets)
   \<and> (2::nat) < length (sorted_overwrites guild_role_gone chan_three_targets)
   \<and> unranked guild_role_gone (fst (sorted_overwrites guild_role_gone chan_three_targets ! 0))
   \<and> fst (sorted_overwrites guild_role_gone chan_three_targets ! 0) = TRole role_gone
   \<and> fst (sorted_overwrites guild_role_gone chan_three_targets ! 2) = TRole role_mod
   \<and> index (roles guild_role_gone) role_mod = Some 0
   \<and> overwrite_sort_key guild_role_gone (TRole role_gone, (0, 0)) = -1
   \<and> overwrite_sort_key guild_role_gone (TRole role_mod, (0, 0)) = 0
   \<and> (0::nat) < 2
   \<and> sorted (map (overwrite_sort_key guild_role_gone)
        (sorted_overwrites guild_role_gone chan_three_targets))
   \<and> map fst (overwrites chan_three_targets)
       = [TRole role_mod, TRole role_gone, TMember member_ann]
   \<and> map fst (sorted_overwrites guild_role_gone chan_three_targets)
       = [TRole role_gone, TMember member_ann, TRole role_mod]"
proof -
  note t = sorted_overwrites_order [of guild_role_gone chan_three_targets]
  have i: "index (roles guild_role_gone) role_mod = Some 0"
    by (simp add: guild_role_gone_def)
  have u: "unranked guild_role_gone (TRole role_gone)"
    by (simp add: unranked_def guild_role_gone_def role_mod_def role_gone_def)
  from t have "overwrite_sort_key guild_role_gone (TRole role_gone, (0, 0)) = -1"
    using u by simp
  moreover from t i have "overwrite_sort_key guild_role_gone (TRole role_mod, (0, 0)) = 0"
    by (metis fst_conv of_nat_0)
  moreover from t have "sorted (map (overwrite_sort_key guild_role_gone)
        (sorted_overwrites guild_role_gone chan_three_targets))" by blast
  moreover have "map fst (overwrites chan_three_targets)
       = [TRole role_mod, TRole role_gone, TMember member_ann]"
    by (simp add: chan_three_targets_def text_channel_def)
  ultimately show ?thesis using i u by (simp add: sorted_overwrites_three)
qed

text \<open>
  C4 as claimed fails: the channel lists the role before the member, and the sorted rows
  put the member first.
\<close>

theorem sorted_overwrites_member_first:
  "map fst (overwrites chan_role_member) = [TRole role_mod, TMember member_ann]
   \<and> map fst (sorted_overwrites guild_role_member chan_role_member)
       = [TMember member_ann, TRole role_mod]"
  by (simp add: sorted_overwrites_def guild_role_member_def chan_role_member_def
      text_channel_def role_mod_def overwrite_sort_key_def)

section \<open>Rendering\<close>

lemma join_lines_snoc: "g \<noteq> [] \<Longrightarrow> join_lines (g @ [x]) = join_lines g @ lit [CHR 0x0A] @ x"
  by (induction g rule: join_lines.induct) auto

lemma render_loop_groups:
  "g0 \<noteq> [] \<Longrightarrow>
   \<exists>groups. concat groups = g0 @ outs \<and> (\<forall>g\<in>set groups. g \<noteq> [])
     \<and> render_loop (join_lines g0) outs = map join_lines groups"
proof (induction outs arbitrary: g0)
  case Nil
  then have "concat [g0] = g0 @ [] \<and> (\<forall>g\<in>set [g0]. g \<noteq> [])
     \<and> render_loop (join_lines g0) [] = map join_lines [g0]" by simp
  then show ?case by blast
next
  case (Cons out outs)
  show ?case
  proof (cases "length (join_lines g0) + 1 + length out > 2000")
    case True
    from Cons.IH [of "[out]"] obtain groups where
      g: "concat groups = [out] @ outs" "\<forall>g\<in>set groups. g \<noteq> []"
         "render_loop (join_lines [out]) outs = map join_lines groups" by auto
    with True Cons.prems have "concat (g0 # groups) = g0 @ out # outs
      \<and> (\<forall>g\<in>set (g0 # groups). g \<noteq> [])
      \<and> render_loop (join_lines g0) (out # outs) = map join_lines (g0 # groups)" by simp
    then show ?thesis by blast
  next
    case False
    from Cons.IH [of "g0 @ [out]"] obtain groups where
      g: "concat groups = (g0 @ [out]) @ outs" "\<forall>g\<in>set groups. g \<noteq> []"
         "render_loop (join_lines (g0 @ [out])) outs = map join_lines groups" by auto
    with False Cons.prems have "concat groups = g0 @ out # outs
      \<and> (\<forall>g\<in>set groups. g \<noteq> [])
      \<and> render_loop (join_lines g0) (out # outs) = map join_lines groups"
      by (simp add: join_lines_snoc)
    then show ?thesis by blast
  qed
qed

lemma render_loop_bound:
  "length t \<le> 2000 \<Longrightarrow> \<forall>n\<in>set outs. length n \<le> 2000 \<Longrightarrow>
   \<forall>m\<in>set (render_loop t outs). length m \<le> 2000"
proof (induction outs arbitrary: t)
  case Nil
  then show ?case by simp
next
  case (Cons out outs)
  show ?case
  proof (cases "length t + 1 + length out > 2000")
    case True
    with Cons.IH [of out] Cons.prems show ?thesis by simp
  next
    case False
    then have "length (t @ lit [CHR 0x0A] @ out) \<le> 2000" by simp
    with Cons.IH [of "t @ lit [CHR 0x0A] @ out"] Cons.prems(2) False
    show ?thesis by simp
  qed
qed

text \<open>
  C8 (amended). For every non-empty list of notes none of which is longer than 2000
  characters, the messages sent are the joins, by newlines, of consecutive non-empty groups
  of the notes (after the empty text the loop starts from), so no note is split and every
  note is in a message; there is at least one message and none is longer than 2000.
\<close>

theorem render_messages:
  assumes "output \<noteq> []" and "\<forall>n\<in>set output. length n \<le> 2000"
  shows "render output \<noteq> []
    \<and> (\<forall>m\<in>set (render output). length m \<le> 2000)
    \<and> (\<exists>groups. concat groups = [] # output \<and> (\<forall>g\<in>set groups. g \<noteq> [])
          \<and> render output = map join_lines groups)"
proof -
  from render_loop_groups [of "[[]]" "output"]
  obtain groups where g: "concat groups = [] # output" "\<forall>g\<in>set groups. g \<noteq> []"
    "render output = map join_lines groups" by (auto simp: render_def)
  from g(1) have "groups \<noteq> []" by auto
  with g(3) have "render output \<noteq> []" by simp
  moreover have "\<forall>m\<in>set (render output). length m \<le> 2000"
    unfolding render_def using assms(2) by (intro render_loop_bound) simp_all
  ultimately show ?thesis using g by blast
qed

theorem render_messages_witness:
  "[lit ''ab'', lit ''c''] \<noteq> [] \<and> list_all (\<lambda>n. length n \<le> 2000) [lit ''ab'', lit ''c'']
   \<and> render [lit ''ab'', lit ''c''] = [[10, 97, 98, 10, 99]]
   \<and> list_all (\<lambda>m. length m \<le> 2000) (render [lit ''ab'', lit ''c''])"
  using render_messages [of "[lit ''ab'', lit ''c'']"]
  by (simp add: render_def)

text \<open>
  C8 as claimed fails on a note longer than the limit: a single note of 2001 characters
  is sent whole, after an empty message.
\<close>

theorem render_long_note:
  "render [replicate 2001 97] = [[], replicate 2001 97]
   \<and> length (replicate 2001 (97::nat)) > 2000"
  by (simp add: render_def)

section \<open>Targets of overwrite rows\<close>

lemma startswith_append [simp]: "startswith (p @ s) p"
  by (simp add: startswith_def)

lemma removeprefix_append [simp]: "removeprefix (p @ s) p = s"
  by (simp add: removeprefix_def)

lemma first_token_append:
  assumes "tok \<noteq> []" "\<forall>c\<in>set tok. \<not> isspace c" "rest = [] \<or> isspace (hd rest)"
  shows "first_token (tok @ rest) = Some tok"
proof -
  from assms(1,2) have "\<not> isspace (hd (tok @ rest))" by (cases tok) auto
  with assms(1) have d: "dropWhile isspace (tok @ rest) = tok @ rest"
    by (cases tok) auto
  have "takeWhile (\<lambda>c. \<not> isspace c) (tok @ rest) = tok"
  proof (cases rest)
    case Nil
    with assms(2) show ?thesis by simp
  next
    case (Cons r rs)
    with assms(3) have "isspace r" by simp
    with assms(2) Cons show ?thesis by (simp add: takeWhile_tail)
  qed
  with d assms(1) show ?thesis by (simp add: first_token_def)
qed

lemma get_member_id: "get_member g i = Some m \<Longrightarrow> member_id m = i \<and> m \<in> set (members g)"
  by (auto simp: get_member_def find_Some_iff)


lemma first_token_pad:
  assumes "\<forall>c\<in>set pad. isspace c" "tok \<noteq> []" "\<forall>c\<in>set tok. \<not> isspace c"
    "rest = [] \<or> isspace (hd rest)"
  shows "first_token (pad @ tok @ rest) = Some tok"
proof -
  have "dropWhile isspace (pad @ tok @ rest) = dropWhile isspace (tok @ rest)"
    using assms(1) by (simp add: dropWhile_append2)
  then have "first_token (pad @ tok @ rest) = first_token (tok @ rest)"
    by (simp add: first_token_def)
  with first_token_append [OF assms(2,3,4)] show ?thesis by simp
qed

lemma first_token_blank:
  assumes "\<forall>c\<in>set pad. isspace c"
  shows "first_token pad = None"
proof -
  have "dropWhile isspace pad = []" using assms by (simp add: dropWhile_eq_Nil_conv)
  then show ?thesis by (simp add: first_token_def)
qed

lemma resolve_eq:
  assumes "\<forall>c\<in>set pad. isspace c" and "tok \<noteq> []" and "\<forall>c\<in>set tok. \<not> isspace c"
    and "rest = [] \<or> isspace (hd rest)"
  shows "resolve_target E g rls (lit ''User '' @ pad @ tok @ rest) =
           (case py_int E tok of
              None \<Rightarrow> Inl ExpectedUserID
            | Some user_id \<Rightarrow>
                (case get_member g user_id of
                   None \<Rightarrow> Inl (NoSuchMember user_id)
                 | Some m \<Rightarrow> Inr (TMember m)))"
proof -
  have r: "startswith (lit ''User '' @ pad @ tok @ rest) (lit ''Role '') = False"
    by (simp add: startswith_def)
  have u: "startswith (lit ''User '' @ pad @ tok @ rest) (lit ''User '') = True"
    by (simp only: startswith_append)
  have p: "removeprefix (lit ''User '' @ pad @ tok @ rest) (lit ''User '') = pad @ tok @ rest"
    by (rule removeprefix_append)
  show ?thesis
    unfolding resolve_target_def
    by (simp only: r u p first_token_pad [OF assms] if_True if_False option.case)
qed

lemma resolve_blank:
  assumes "\<forall>c\<in>set pad. isspace c"
  shows "resolve_target E g rls (lit ''User '' @ pad) = Inl IndexError"
proof -
  have r: "startswith (lit ''User '' @ pad) (lit ''Role '') = False"
    by (simp add: startswith_def)
  have u: "startswith (lit ''User '' @ pad) (lit ''User '') = True"
    by (simp only: startswith_append)
  have p: "removeprefix (lit ''User '' @ pad) (lit ''User '') = pad"
    by (rule removeprefix_append)
  show ?thesis
    unfolding resolve_target_def
    by (simp only: r u p first_token_blank [OF assms] if_True if_False option.case)
qed

text \<open>
  C10. Every cell that starts with \<open>User \<close> continues with white space and then either
  ends or has a token, a run of characters without white space, followed by nothing or by
  white space and more text. Only the token is read: it is parsed as an integer by
  \<open>int\<close> (an error if it is none), the member with that identifier is looked up (an
  error if there is none), and the result does not depend on the text after the token, the
  name. A cell without a token fails too.
\<close>

theorem resolve_target_user:
  assumes "\<forall>c\<in>set pad. isspace c" and "tok \<noteq> []" and "\<forall>c\<in>set tok. \<not> isspace c"
    and "rest = [] \<or> isspace (hd rest)"
  shows "resolve_target E g rls (lit ''User '' @ pad @ tok @ rest) =
           (case py_int E tok of
              None \<Rightarrow> Inl ExpectedUserID
            | Some user_id \<Rightarrow>
                (case get_member g user_id of
                   None \<Rightarrow> Inl (NoSuchMember user_id)
                 | Some m \<Rightarrow> Inr (TMember m)))
         \<and> (\<forall>t. resolve_target E g rls (lit ''User '' @ pad @ tok @ rest) = Inr t \<longrightarrow>
               (\<exists>m. t = TMember m \<and> m \<in> set (members g) \<and> py_int E tok = Some (member_id m)))
         \<and> resolve_target E g rls (lit ''User '' @ pad) = Inl IndexError"
proof -
  note eq = resolve_eq [OF assms, where E = E and g = g and rls = rls]
  have "\<exists>m. t = TMember m \<and> m \<in> set (members g) \<and> py_int E tok = Some (member_id m)"
    if "resolve_target E g rls (lit ''User '' @ pad @ tok @ rest) = Inr t" for t
  proof (cases "py_int E tok")
    case None
    with that eq show ?thesis by simp
  next
    case (Some i)
    show ?thesis
    proof (cases "get_member g i")
      case None
      with that eq Some show ?thesis by simp
    next
      case (Some m)
      with that eq \<open>py_int E tok = Some i\<close> get_member_id [OF Some] show ?thesis by simp
    qed
  qed
  with eq resolve_blank [OF assms(1)] show ?thesis by blast
qed

text \<open>
  The token may be written in the digits of another script, and the name need not be the
  member's: the fullwidth digit seven followed by \<open>bob\<close> resolves to member 7, Ann.
\<close>

lemma py_int_fullwidth_seven: "py_int demo_env [65303] = Some 7"
  by (simp add: py_int_def demo_env_def isspace_def strip_ascii_def ascii_space_def
      read_digits_def digits_allowed_def)

theorem resolve_target_user_witness:
  "list_all isspace [] \<and> [65303] \<noteq> [] \<and> list_all (\<lambda>c. \<not> isspace c) [65303]
   \<and> isspace (hd (lit '' bob''))
   \<and> resolve_target demo_env guild_town (roles_dict guild_town)
        (lit ''User '' @ [] @ [65303] @ lit '' bob'')
       = Inr (TMember member_ann)
   \<and> member_name member_ann = lit ''ann''"
proof -
  have z: "\<forall>c\<in>set []. isspace c" by simp
  have a: "[65303::nat] \<noteq> []" by simp
  have b: "\<forall>c\<in>set [65303]. \<not> isspace c" by (simp add: isspace_def)
  have c: "lit '' bob'' = [] \<or> isspace (hd (lit '' bob''))" by (simp add: isspace_def)
  have m: "get_member guild_town 7 = Some member_ann"
    by (simp add: get_member_def guild_town_def member_ann_def)
  from resolve_target_user [OF z a b c, where E = demo_env and g = guild_town
      and rls = "roles_dict guild_town"]
  have "resolve_target demo_env guild_town (roles_dict guild_town)
        (lit ''User '' @ [] @ [65303] @ lit '' bob'')
       = Inr (TMember member_ann)"
    by (simp only: py_int_fullwidth_seven m option.case)
  moreover have "member_name member_ann = lit ''ann''" by (simp add: member_ann_def)
  moreover have "list_all (\<lambda>c. \<not> isspace c) [65303]" by (simp add: isspace_def)
  moreover have "isspace (hd (lit '' bob''))" by (simp add: isspace_def)
  ultimately show ?thesis by simp
qed

section \<open>The sync pass\<close>

lemma new_category_upd [simp]:
  "new_category g (st\<lparr>channel_var := x\<rparr>) c = new_category g st c"
  "new_category g (st\<lparr>out_notes := y\<rparr>) c = new_category g st c"
  "new_category g (st\<lparr>actions := z\<rparr>) c = new_category g st c"
  by (simp_all add: new_category_def)

lemma sync_wanted_upd [simp]:
  "sync_wanted g (st\<lparr>channel_var := x\<rparr>) c cat = sync_wanted g st c cat"
  "sync_wanted g (st\<lparr>out_notes := y\<rparr>) c cat = sync_wanted g st c cat"
  "sync_wanted g (st\<lparr>actions := z\<rparr>) c cat = sync_wanted g st c cat"
  by (simp_all add: sync_wanted_def)


lemma sync_pass_ok:
  "\<forall>c\<in>set ws. new_category g st c \<noteq> None \<Longrightarrow>
   \<exists>st'. sync_pass g ws st = Inr st'
     \<and> actions st' = actions st @ map EditSyncPermissions
          (filter (\<lambda>c. sync_wanted g st c (the (new_category g st c))) ws)
     \<and> out_notes st' = out_notes st @
          map (\<lambda>c. lit ''Sync '' @ fmt_c c @ lit '' with '' @ fmt_c (the (new_category g st c)))
            (filter (\<lambda>c. sync_wanted g st c (the (new_category g st c))) ws)
     \<and> seen_moved st' = seen_moved st \<and> overwrites_changed st' = overwrites_changed st"
proof (induction ws arbitrary: st)
  case Nil
  then show ?case by simp
next
  case (Cons w ws)
  from Cons.prems obtain cat where cat: "new_category g st w = Some cat" by auto
  show ?case
  proof (cases "sync_wanted g st w cat")
    case True
    let ?st = "st\<lparr>channel_var := Some w,
                   out_notes := out_notes st @ [lit ''Sync '' @ fmt_c w @ lit '' with '' @ fmt_c cat],
                   actions := actions st @ [EditSyncPermissions w]\<rparr>"
    from Cons.prems have "\<forall>c\<in>set ws. new_category g ?st c \<noteq> None" by simp
    from Cons.IH [OF this] obtain st' where
      "sync_pass g ws ?st = Inr st'"
      "actions st' = actions ?st @ map EditSyncPermissions
          (filter (\<lambda>c. sync_wanted g ?st c (the (new_category g ?st c))) ws)"
      "out_notes st' = out_notes ?st @
          map (\<lambda>c. lit ''Sync '' @ fmt_c c @ lit '' with '' @ fmt_c (the (new_category g ?st c)))
            (filter (\<lambda>c. sync_wanted g ?st c (the (new_category g ?st c))) ws)"
      "seen_moved st' = seen_moved ?st" "overwrites_changed st' = overwrites_changed ?st"
      by blast
    with cat True show ?thesis by simp
  next
    case False
    let ?st = "st\<lparr>channel_var := Some w\<rparr>"
    from Cons.prems have "\<forall>c\<in>set ws. new_category g ?st c \<noteq> None" by simp
    from Cons.IH [OF this] obtain st' where
      "sync_pass g ws ?st = Inr st'"
      "actions st' = actions ?st @ map EditSyncPermissions
          (filter (\<lambda>c. sync_wanted g ?st c (the (new_category g ?st c))) ws)"
      "out_notes st' = out_notes ?st @
          map (\<lambda>c. lit ''Sync '' @ fmt_c c @ lit '' with '' @ fmt_c (the (new_category g ?st c)))
            (filter (\<lambda>c. sync_wanted g ?st c (the (new_category g ?st c))) ws)"
      "seen_moved st' = seen_moved ?st" "overwrites_changed st' = overwrites_changed ?st"
      by blast
    with cat False show ?thesis by simp
  qed
qed


lemma chan_category_square: "chan_category guild_town chan_square = Some cat_town"
  by (simp add: chan_category_def get_channel_def guild_town_def chan_square_def
      chan_market_def cat_town_def text_channel_def category_channel_def)



section \<open>The header\<close>

lemma and_then_simps [simp]:
  "and_then (Inl e) f = Inl e"
  "and_then (Inr x) f = f x"
  by (simp_all add: and_then_def)

lemma iter_order_Nil [simp]: "iter_order E [] = []"
  by (simp add: iter_order_def Let_def)

lemma set_iter_order [simp]: "set (iter_order E ws) = set ws"
  by (simp add: iter_order_def Let_def)

lemma collect_flags_error:
  "collect_flags P perms = Inl e \<longleftrightarrow>
     (\<exists>known perm rest. perms = known @ perm # rest \<and> e = UnknownPermission perm
        \<and> getattr_Permissions P perm = None \<and> (\<forall>k\<in>set known. getattr_Permissions P k \<noteq> None))"
proof (induction perms)
  case Nil
  then show ?case by simp
next
  case (Cons p ps)
  show ?case
  proof (cases "getattr_Permissions P p")
    case None
    have "(\<exists>known perm rest. p # ps = known @ perm # rest \<and> e = UnknownPermission perm
        \<and> getattr_Permissions P perm = None \<and> (\<forall>k\<in>set known. getattr_Permissions P k \<noteq> None))
      \<longleftrightarrow> e = UnknownPermission p"
    proof
      assume "\<exists>known perm rest. p # ps = known @ perm # rest \<and> e = UnknownPermission perm
        \<and> getattr_Permissions P perm = None \<and> (\<forall>k\<in>set known. getattr_Permissions P k \<noteq> None)"
      then obtain known perm rest where h: "p # ps = known @ perm # rest" "e = UnknownPermission perm"
        "\<forall>k\<in>set known. getattr_Permissions P k \<noteq> None" by blast
      from h(1,3) None have "known = []" by (cases known) auto
      with h show "e = UnknownPermission p" by simp
    next
      assume "e = UnknownPermission p"
      with None have "p # ps = [] @ p # ps \<and> e = UnknownPermission p
        \<and> getattr_Permissions P p = None \<and> (\<forall>k\<in>set []. getattr_Permissions P k \<noteq> None)" by simp
      then show "\<exists>known perm rest. p # ps = known @ perm # rest \<and> e = UnknownPermission perm
        \<and> getattr_Permissions P perm = None \<and> (\<forall>k\<in>set known. getattr_Permissions P k \<noteq> None)"
        by blast
    qed
    with None show ?thesis by auto
  next
    case (Some a)
    have "(\<exists>known perm rest. p # ps = known @ perm # rest \<and> e = UnknownPermission perm
        \<and> getattr_Permissions P perm = None \<and> (\<forall>k\<in>set known. getattr_Permissions P k \<noteq> None))
      \<longleftrightarrow> (\<exists>known perm rest. ps = known @ perm # rest \<and> e = UnknownPermission perm
        \<and> getattr_Permissions P perm = None \<and> (\<forall>k\<in>set known. getattr_Permissions P k \<noteq> None))"
      (is "?L \<longleftrightarrow> ?R")
    proof
      assume ?L
      then obtain known perm rest where h: "p # ps = known @ perm # rest" "e = UnknownPermission perm"
        "getattr_Permissions P perm = None" "\<forall>k\<in>set known. getattr_Permissions P k \<noteq> None" by blast
      from h(1,3) Some obtain known' where k: "known = p # known'" by (cases known) auto
      with h have "ps = known' @ perm # rest \<and> e = UnknownPermission perm
        \<and> getattr_Permissions P perm = None \<and> (\<forall>k\<in>set known'. getattr_Permissions P k \<noteq> None)"
        by simp
      then show ?R by blast
    next
      assume ?R
      then obtain known perm rest where h: "ps = known @ perm # rest" "e = UnknownPermission perm"
        "getattr_Permissions P perm = None" "\<forall>k\<in>set known. getattr_Permissions P k \<noteq> None" by blast
      with Some have "p # ps = (p # known) @ perm # rest \<and> e = UnknownPermission perm
        \<and> getattr_Permissions P perm = None \<and> (\<forall>k\<in>set (p # known). getattr_Permissions P k \<noteq> None)"
        by simp
      then show ?L by blast
    qed
    moreover have "collect_flags P (p # ps) = Inl e \<longleftrightarrow> collect_flags P ps = Inl e"
      using Some by (cases "collect_flags P ps") simp_all
    ultimately show ?thesis using Cons.IH by simp
  qed
qed

lemma importperms_header_error:
  "channels_dict g \<noteq> None \<Longrightarrow> parse_header P header = Inl e \<Longrightarrow>
   importperms E P g (header # data) = Inl e"
  by (auto simp: importperms_def)

lemma channels_dict_role_member:
  "channels_dict guild_role_member = Some [(lit ''general'', chan_role_member)]"
  by (simp add: channels_dict_def disambiguated_name_def guild_role_member_def
      chan_role_member_def text_channel_def)

lemma parse_header_none: "parse_header demo_perms header_none = Inr [(NotFlag, lit ''none'')]"
  by (simp add: parse_header_def header_none_def getattr_Permissions_def demo_perms_def)

text \<open>
  C7. The header check asks \<open>getattr\<close> of the permission class, which also succeeds for
  attributes that are no permission flag, such as the class method \<open>none\<close>. A header with
  the column \<open>none\<close> is accepted: with no data row the import ends without an error, and
  a data row with a \<open>+\<close> in that column fails later, in the row, with an AttributeError
  that does not name the column.
\<close>

theorem importperms_header_none:
  "getattr_Permissions demo_perms (lit ''none'') = Some NotFlag
   \<and> importperms demo_env demo_perms guild_role_member [header_none] = Inr initial_state
   \<and> importperms demo_env demo_perms guild_role_member
        [header_none, [[], [], lit ''Role mod'', lit ''+'']] = Inl AttributeError"
proof -
  have a: "getattr_Permissions demo_perms (lit ''none'') = Some NotFlag"
    by (simp add: getattr_Permissions_def demo_perms_def)
  have b: "importperms demo_env demo_perms guild_role_member [header_none] = Inr initial_state"
    by (simp add: importperms_def channels_dict_role_member parse_header_none initial_state_def)
  have r: "dict_get (roles_dict guild_role_member) (lit ''mod'') = Some role_mod"
    by (simp add: dict_get_def roles_dict_def guild_role_member_def role_mod_def)
  have "process_row demo_env guild_role_member [(lit ''general'', chan_role_member)]
          (roles_dict guild_role_member) [(NotFlag, lit ''none'')] initial_state
          [[], [], lit ''Role mod'', lit ''+''] = Inl AttributeError"
    by (simp add: process_row_def role_row_def startswith_def removeprefix_def Let_def r [simplified])
  then have c: "importperms demo_env demo_perms guild_role_member
        [header_none, [[], [], lit ''Role mod'', lit ''+'']] = Inl AttributeError"
    by (simp add: importperms_def channels_dict_role_member parse_header_none)
  from a b c show ?thesis by simp
qed

section \<open>The sign columns of a row\<close>

lemma process_row_cong:
  assumes "3 \<le> length r" "3 \<le> length r'" "take 3 r = take 3 r'"
    and z: "zip flags (drop 3 r) = zip flags' (drop 3 r')"
  shows "process_row E g chans rls flags st r = process_row E g chans rls flags' st r'"
proof -
  have n: "r ! 0 = r' ! 0" "r ! 1 = r' ! 1" "r ! 2 = r' ! 2"
    using assms(3) by (metis nth_take zero_less_numeral one_less_numeral_iff semiring_norm(77)
        numeral_less_iff semiring_norm(76,78) numeral_2_eq_2 numeral_3_eq_3 lessI)+
  have l: "\<not> length r < 3" "\<not> length r' < 3" using assms(1,2) by simp_all
  show ?thesis
    unfolding process_row_def role_row_def channel_row_def target_row_def resolve_channel_def
    by (simp only: n l z)
qed

lemma zip_take_both: "zip (take (length ys) xs) (take (length xs) ys) = zip xs ys"
proof (induction xs arbitrary: ys)
  case Nil
  then show ?case by simp
next
  case (Cons x xs)
  then show ?case by (cases ys) simp_all
qed

lemma role_scan_filter:
  "role_scan perms (filter (\<lambda>(f, s). s = lit ''+'' \<or> s = lit ''-'') zs) acc = role_scan perms zs acc"
proof (induction perms zs acc rule: role_scan.induct)
  case (1 perms acc)
  then show ?case by simp
next
  case (2 perms a perm sign rest changes add_mask remove_mask)
  then show ?case by (cases a) auto
qed

lemma overwrite_scan_filter:
  "overwrite_scan ow (filter (\<lambda>(f, s). s = lit ''+'' \<or> s = lit ''-'' \<or> s = lit ''/'') zs) acc
   = overwrite_scan ow zs acc"
proof (induction ow zs acc rule: overwrite_scan.induct)
  case (1 ow acc)
  then show ?case by simp
next
  case (2 ow a perm sign rest changes add_mask remove_mask reset_mask)
  then show ?case by (cases a) auto
qed

text \<open>
  C9. A data row with at least three columns is processed as if the header had only as many
  flags as the row has sign columns, and as if the row had no more sign columns than the
  header has flags: signs and flags are paired by position up to the shorter of the two,
  so a short row is accepted and the flags beyond it are left alone. In the pairs, every
  sign other than \<open>+\<close> and \<open>-\<close> (role rows), or \<open>+\<close>, \<open>-\<close> and \<open>/\<close>
  (overwrite rows), contributes nothing.
\<close>

theorem sign_columns_positional:
  "(3 \<le> length row \<longrightarrow>
      process_row E g chans rls flags st row
      = process_row E g chans rls (take (length row - 3) flags) st (take (3 + length flags) row))
   \<and> role_scan perms (zip flags signs) racc
      = role_scan perms (filter (\<lambda>(f, s). s = lit ''+'' \<or> s = lit ''-'') (zip flags signs)) racc
   \<and> overwrite_scan ow (zip flags signs) oacc
      = overwrite_scan ow
          (filter (\<lambda>(f, s). s = lit ''+'' \<or> s = lit ''-'' \<or> s = lit ''/'') (zip flags signs)) oacc"
proof -
  have "process_row E g chans rls flags st row
      = process_row E g chans rls (take (length row - 3) flags) st (take (3 + length flags) row)"
    if h: "3 \<le> length row"
  proof (rule process_row_cong)
    show "3 \<le> length row" by (rule h)
    show "3 \<le> length (take (3 + length flags) row)" using h by simp
    show "take 3 row = take 3 (take (3 + length flags) row)" by (simp add: min_def)
    have "drop 3 (take (3 + length flags) row) = take (length flags) (drop 3 row)"
      by (simp add: drop_take)
    then show "zip flags (drop 3 row)
      = zip (take (length row - 3) flags) (drop 3 (take (3 + length flags) row))"
      using zip_take_both [of "drop 3 row" flags] by simp
  qed
  then show ?thesis unfolding role_scan_filter overwrite_scan_filter by blast
qed

theorem sign_columns_positional_witness:
  "3 \<le> length [[], [], lit ''Role mod'', lit ''?'', lit ''+'']
   \<and> process_row demo_env guild_role_member [(lit ''general'', chan_role_member)]
        (roles_dict guild_role_member)
        [(Flag 2, lit ''kick_members''), (Flag 4, lit ''ban_members''),
         (Flag 1024, lit ''read_messages'')]
        initial_state [[], [], lit ''Role mod'', lit ''?'', lit ''+'']
      = Inr (initial_state\<lparr>out_notes := [lit ''<@&1>: '' @ 9989 # lit ''ban_members''],
                            actions := [EditRolePermissions role_mod 4 0]\<rparr>)"
proof -
  let ?row = "[[], [], lit ''Role mod'', lit ''?'', lit ''+'']"
  let ?flags = "[(Flag 2, lit ''kick_members''), (Flag 4, lit ''ban_members''),
         (Flag 1024, lit ''read_messages'')]"
  have l: "3 \<le> length ?row" by simp
  have r: "dict_get (roles_dict guild_role_member) (lit ''mod'') = Some role_mod"
    by (simp add: dict_get_def roles_dict_def guild_role_member_def role_mod_def)
  have s: "show_int 1 = lit ''1''" by (simp add: show_int_def show_nat.simps)
  have t: "process_row demo_env guild_role_member [(lit ''general'', chan_role_member)]
        (roles_dict guild_role_member) (take (length ?row - 3) ?flags) initial_state
        (take (3 + length ?flags) ?row)
      = Inr (initial_state\<lparr>out_notes := [lit ''<@&1>: '' @ 9989 # lit ''ban_members''],
                            actions := [EditRolePermissions role_mod 4 0]\<rparr>)"
    by (simp add: process_row_def role_row_def startswith_def removeprefix_def Let_def
        r [simplified] fmt_target_def s [simplified] role_mod_def initial_state_def)
  from sign_columns_positional [where row = ?row and E = demo_env and g = guild_role_member
      and chans = "[(lit ''general'', chan_role_member)]"
      and rls = "roles_dict guild_role_member" and flags = ?flags and st = initial_state] l
  have "process_row demo_env guild_role_member [(lit ''general'', chan_role_member)]
        (roles_dict guild_role_member) ?flags initial_state ?row
      = process_row demo_env guild_role_member [(lit ''general'', chan_role_member)]
        (roles_dict guild_role_member) (take (length ?row - 3) ?flags) initial_state
        (take (3 + length ?flags) ?row)" by blast
  with t l show ?thesis by (simp only:) 
qed

section \<open>The overwrite pass\<close>

lemma set_set_add [simp]: "set (set_add x xs) = insert x (set xs)"
  by (auto simp: set_add_def)

lemma filter_nonempty_list_ex: "filter P xs \<noteq> [] \<longleftrightarrow> list_ex P xs"
  by (induction xs) auto

lemma overwrites_pass_all:
  assumes "channel_var st = Some c0" "c0 \<notin> set (want_sync st)"
    and "\<forall>c\<in>fst ` set nov. c \<notin> set (want_sync st)"
  shows "\<exists>st'. overwrites_pass nov st = Inr st'
    \<and> actions st' = actions st @ map (\<lambda>(c, d). EditOverwrites c d) nov
    \<and> set (overwrites_changed st')
        = set (overwrites_changed st) \<union> {c. \<exists>d. (c, d) \<in> set nov \<and> masks_changed c d}
    \<and> want_sync st' = want_sync st \<and> seen_moved st' = seen_moved st"
  using assms
proof (induction nov arbitrary: st c0)
  case Nil
  then show ?case by simp
next
  case (Cons p nov)
  obtain chan d where p: "p = (chan, d)" by (cases p)
  let ?removed = "filter (\<lambda>t. t \<notin> fst ` set d) (map fst (overwrites chan))"
  let ?st = "st\<lparr>channel_var := Some chan,
                 overwrites_changed :=
                   (if list_ex (\<lambda>(t, a, r, z). a \<noteq> 0 \<or> r \<noteq> 0 \<or> z \<noteq> 0) d \<or> ?removed \<noteq> []
                    then set_add chan (overwrites_changed st) else overwrites_changed st),
                 out_notes := out_notes st @
                   map (\<lambda>t. fmt_c chan @ lit '' remove '' @ fmt_target t) ?removed,
                 actions := actions st @ [EditOverwrites chan d]\<rparr>"
  have step: "overwrites_pass (p # nov) st = overwrites_pass nov ?st"
    using Cons.prems(1,2) p by (simp add: Let_def)
  have a: "channel_var ?st = Some chan" by simp
  have b: "chan \<notin> set (want_sync ?st)" using Cons.prems(3) p by simp
  have c: "\<forall>c\<in>fst ` set nov. c \<notin> set (want_sync ?st)" using Cons.prems(3) by simp
  from Cons.IH [OF a b c] obtain st' where r: "overwrites_pass nov ?st = Inr st'"
    "actions st' = actions ?st @ map (\<lambda>(c, d). EditOverwrites c d) nov"
    "set (overwrites_changed st')
        = set (overwrites_changed ?st) \<union> {c. \<exists>d. (c, d) \<in> set nov \<and> masks_changed c d}"
    "want_sync st' = want_sync ?st" "seen_moved st' = seen_moved ?st" by blast
  have ch: "set (overwrites_changed ?st)
      = set (overwrites_changed st) \<union> (if masks_changed chan d then {chan} else {})"
    by (simp add: masks_changed_def filter_nonempty_list_ex)
  have "set (overwrites_changed st')
        = set (overwrites_changed st) \<union> {c. \<exists>d. (c, d) \<in> set (p # nov) \<and> masks_changed c d}"
    unfolding r(3) ch using p by auto
  with step r p show ?case by simp
qed

lemma channels_dict_town: "channels_dict guild_town = Some town_chans"
  by (simp add: channels_dict_def disambiguated_name_def guild_town_def town_chans_def
      chan_market_def cat_town_def chan_square_def text_channel_def category_channel_def)

lemma parse_header_demo: "parse_header demo_perms (header_row demo_perms) = Inr demo_flags"
  by (simp add: parse_header_def header_row_def iter_Permissions_def demo_perms_def
      getattr_Permissions_def demo_flags_def)

lemma dict_get_town: "dict_get town_chans (lit ''town'') = Some cat_town"
  by (simp add: dict_get_def town_chans_def)

lemma is_category_town: "is_category cat_town"
  by (simp add: is_category_def cat_town_def category_channel_def)

lemma overwrites_town: "overwrites cat_town = [(TRole role_mod, (1024, 0))]"
  by (simp add: cat_town_def category_channel_def)

lemma dict_get_mod: "dict_get (roles_dict guild_town) (lit ''mod'') = Some role_mod"
  by (simp add: dict_get_def roles_dict_def guild_town_def role_mod_def)

lemma town_row1:
  "process_row demo_env guild_town town_chans (roles_dict guild_town) demo_flags initial_state
     [lit ''town'', [], []]
   = Inr (initial_state\<lparr>channel_var := Some cat_town, new_overwrites := [(cat_town, [])]\<rparr>)"
  by (simp add: process_row_def channel_row_def resolve_channel_def lookup_category_def
      dict_get_town [simplified] is_category_town move_channel_def overwrites_of_def
      initial_state_def)

lemma town_row2:
  "process_row demo_env guild_town town_chans (roles_dict guild_town) demo_flags
     (initial_state\<lparr>channel_var := Some cat_town, new_overwrites := [(cat_town, [])]\<rparr>)
     [lit ''town'', [], lit ''Role mod'', lit ''/'', lit ''/'', lit ''+'', lit ''/'']
   = Inr (initial_state\<lparr>channel_var := Some cat_town,
            new_overwrites := [(cat_town, [(TRole role_mod, (0, 0, 0))])]\<rparr>)"
  by (simp add: process_row_def channel_row_def resolve_channel_def lookup_category_def
      dict_get_town [simplified] is_category_town move_channel_def overwrites_of_def
      target_row_def resolve_target_def startswith_def removeprefix_def Let_def
      dict_get_mod [simplified] overwrites_for_def overwrites_town demo_flags_def
      initial_state_def)

lemma importperms_Cons:
  "channels_dict g = Some chans \<Longrightarrow> parse_header P header = Inr flags \<Longrightarrow>
   process_rows E g chans (roles_dict g) flags initial_state data = Inr st \<Longrightarrow>
   overwrites_pass (new_overwrites st) st = Inr st' \<Longrightarrow>
   importperms E P g (header # data) = sync_pass g (iter_order E (want_sync st')) st'"
  by (simp add: importperms_def and_then_def)

lemma process_rows_Cons:
  "process_row E g chans rls flags st row = Inr st' \<Longrightarrow>
   process_rows E g chans rls flags st (row # rows) = process_rows E g chans rls flags st' rows"
  by (simp add: and_then_def)

text \<open>
  C3 as claimed fails: rows that repeat the category's only overwrite unchanged store three
  zero masks and remove nothing, and an overwrite-edit action is scheduled all the same.
\<close>

theorem importperms_unchanged_category:
  "importperms demo_env demo_perms guild_town rows_town_unchanged
   = Inr \<lparr>actions = [EditOverwrites cat_town [(TRole role_mod, (0, 0, 0))]], out_notes = [],
          new_overwrites = [(cat_town, [(TRole role_mod, (0, 0, 0))])], overwrites_changed = [],
          want_sync = [], seen_moved = [], channel_var = Some cat_town\<rparr>"
proof -
  let ?st = "initial_state\<lparr>channel_var := Some cat_town,
            new_overwrites := [(cat_town, [(TRole role_mod, (0, 0, 0))])]\<rparr>"
  let ?st' = "?st\<lparr>actions := [EditOverwrites cat_town [(TRole role_mod, (0, 0, 0))]]\<rparr>"
  have rows: "process_rows demo_env guild_town town_chans (roles_dict guild_town) demo_flags initial_state
      [[lit ''town'', [], []],
       [lit ''town'', [], lit ''Role mod'', lit ''/'', lit ''/'', lit ''+'', lit ''/'']] = Inr ?st"
    by (simp only: process_rows_Cons [OF town_row1] process_rows_Cons [OF town_row2]
        process_rows.simps(1))
  have pass: "overwrites_pass (new_overwrites ?st) ?st = Inr ?st'"
    by (simp add: overwrites_town initial_state_def)
  have "importperms demo_env demo_perms guild_town rows_town_unchanged
        = sync_pass guild_town (iter_order demo_env (want_sync ?st')) ?st'"
    unfolding rows_town_unchanged_def
    by (rule importperms_Cons [OF channels_dict_town parse_header_demo rows pass])
  then show ?thesis by (simp add: initial_state_def)
qed

text \<open>
  C3 (amended). When neither the channel the variable \<open>channel\<close> holds after the rows nor
  any channel touched by overwrite rows is marked synced, the second pass schedules exactly
  one overwrite-edit action for every touched channel, in the order of \<open>new_overwrites\<close>,
  whether or not a mask is nonzero or a target is removed; and a channel enters
  \<open>overwrites_changed\<close> exactly when one of its stored masks is nonzero or a live overwrite
  target is absent from the input.
\<close>

theorem overwrites_pass_schedule:
  assumes "channel_var st = Some c0" and "c0 \<notin> set (want_sync st)"
    and "\<forall>c\<in>fst ` set nov. c \<notin> set (want_sync st)"
  shows "\<exists>st'. overwrites_pass nov st = Inr st'
    \<and> actions st' = actions st @ map (\<lambda>(c, d). EditOverwrites c d) nov
    \<and> set (overwrites_changed st')
        = set (overwrites_changed st) \<union> {c. \<exists>d. (c, d) \<in> set nov \<and> masks_changed c d}"
  using overwrites_pass_all [OF assms] by blast

theorem overwrites_pass_schedule_witness:
  "channel_var (initial_state\<lparr>channel_var := Some cat_town\<rparr>) = Some cat_town
   \<and> cat_town \<notin> set (want_sync (initial_state\<lparr>channel_var := Some cat_town\<rparr>))
   \<and> list_all (\<lambda>c. c \<notin> set (want_sync (initial_state\<lparr>channel_var := Some cat_town\<rparr>)))
        (map fst [(cat_town, [(TRole role_mod, (0, 0, 0))])])
   \<and> (\<exists>st'. overwrites_pass [(cat_town, [(TRole role_mod, (0, 0, 0))])]
               (initial_state\<lparr>channel_var := Some cat_town\<rparr>) = Inr st'
          \<and> actions st' = [EditOverwrites cat_town [(TRole role_mod, (0, 0, 0))]]
          \<and> set (overwrites_changed st') = {})"
proof -
  let ?st = "initial_state\<lparr>channel_var := Some cat_town\<rparr>"
  let ?nov = "[(cat_town, [(TRole role_mod, (0::int, 0::int, 0::int))])]"
  have a: "channel_var ?st = Some cat_town" by simp
  have b: "cat_town \<notin> set (want_sync ?st)" by (simp add: initial_state_def)
  have c: "\<forall>c\<in>fst ` set ?nov. c \<notin> set (want_sync ?st)" by (simp add: initial_state_def)
  have m: "\<not> masks_changed cat_town [(TRole role_mod, (0, 0, 0))]"
    by (simp add: masks_changed_def overwrites_town)
  from overwrites_pass_schedule [OF a b c] obtain st' where
    r: "overwrites_pass ?nov ?st = Inr st'"
       "actions st' = actions ?st @ map (\<lambda>(c, d). EditOverwrites c d) ?nov"
       "set (overwrites_changed st')
        = set (overwrites_changed ?st) \<union> {c. \<exists>d. (c, d) \<in> set ?nov \<and> masks_changed c d}"
    by blast
  from r(2) have "actions st' = [EditOverwrites cat_town [(TRole role_mod, (0, 0, 0))]]"
    by (simp add: initial_state_def)
  moreover from r(3) m have "set (overwrites_changed st') = {}"
    by (simp add: initial_state_def)
  ultimately have "\<exists>st'. overwrites_pass ?nov ?st = Inr st'
          \<and> actions st' = [EditOverwrites cat_town [(TRole role_mod, (0, 0, 0))]]
          \<and> set (overwrites_changed st') = {}" using r(1) by blast
  with a b show ?thesis by (simp add: initial_state_def)
qed

section \<open>Export followed by import\<close>

subsection \<open>Printing and reading identifiers\<close>

lemma show_nat_digits: "c \<in> set (show_nat n) \<Longrightarrow> 48 \<le> c \<and> c \<le> 57"
proof (induction n arbitrary: c rule: show_nat.induct)
  case (1 n)
  show ?case
  proof (cases "n < 10")
    case True
    with "1.prems" show ?thesis by (simp add: show_nat.simps [of n])
  next
    case False
    with "1.prems" have "c \<in> set (show_nat (n div 10)) \<or> c = 48 + n mod 10"
      by (auto simp: show_nat.simps [of n])
    then show ?thesis
    proof
      assume "c \<in> set (show_nat (n div 10))"
      with "1.IH" False show ?thesis by simp
    next
      assume "c = 48 + n mod 10"
      moreover have "n mod 10 < 10" by simp
      ultimately show ?thesis by linarith
    qed
  qed
qed

lemma show_nat_nonempty: "show_nat n \<noteq> []"
  by (subst show_nat.simps) simp

lemma parse_digits_show_nat:
  "parse_digits prev acc (show_nat n @ rest)
   = parse_digits True (acc * 10 ^ length (show_nat n) + n) rest"
proof (induction n arbitrary: prev acc rest rule: show_nat.induct)
  case (1 n)
  show ?case
  proof (cases "n < 10")
    case True
    then show ?thesis by (simp add: show_nat.simps [of n])
  next
    case False
    have s: "show_nat n = show_nat (n div 10) @ [48 + n mod 10]"
      using False by (simp add: show_nat.simps [of n])
    have d: "n mod 10 < 10" by simp
    have "parse_digits prev acc (show_nat n @ rest)
      = parse_digits prev acc (show_nat (n div 10) @ ((48 + n mod 10) # rest))"
      by (simp add: s)
    also have "\<dots> = parse_digits True (acc * 10 ^ length (show_nat (n div 10)) + n div 10)
        ((48 + n mod 10) # rest)"
      using "1.IH" [OF False] by simp
    also have "\<dots> = parse_digits True
        ((acc * 10 ^ length (show_nat (n div 10)) + n div 10) * 10 + n mod 10) rest"
    proof -
      have "48 \<le> 48 + n mod 10 \<and> 48 + n mod 10 \<le> 57" using d by linarith
      moreover have "48 + n mod 10 - 48 = n mod 10" by simp
      ultimately show ?thesis by (simp only: parse_digits.simps if_True simp_thms)
    qed
    also have "(acc * 10 ^ length (show_nat (n div 10)) + n div 10) * 10 + n mod 10
      = acc * 10 ^ length (show_nat n) + n"
      by (simp add: s algebra_simps)
    finally show ?thesis .
  qed
qed

lemma parse_digits_show_nat0: "parse_digits False 0 (show_nat n) = Some n"
  using parse_digits_show_nat [of False 0 n "[]"] by simp

lemma to_ascii_id: "\<forall>c\<in>set s. c < 127 \<Longrightarrow> to_ascii E s = s"
  by (induction s) simp_all

lemma dropWhile_none: "\<forall>c\<in>set s. \<not> P c \<Longrightarrow> dropWhile P s = s"
  by (cases s) simp_all

lemma strip_ascii_id: "\<forall>c\<in>set s. \<not> ascii_space c \<Longrightarrow> strip_ascii s = s"
  by (simp add: strip_ascii_def dropWhile_none)

lemma show_int_chars: "c \<in> set (show_int i) \<Longrightarrow> c < 127 \<and> \<not> ascii_space c"
proof -
  assume "c \<in> set (show_int i)"
  then have "c = 45 \<or> (\<exists>n. c \<in> set (show_nat n))"
    by (auto simp: show_int_def split: if_splits)
  then show ?thesis
  proof
    assume "c = 45"
    then show ?thesis by (simp add: ascii_space_def)
  next
    assume "\<exists>n. c \<in> set (show_nat n)"
    then obtain n where "c \<in> set (show_nat n)" by blast
    then have "48 \<le> c \<and> c \<le> 57" by (rule show_nat_digits)
    then show ?thesis by (simp add: ascii_space_def)
  qed
qed

lemma read_digits_show_nat:
  assumes "digits_allowed E (length (show_nat n))"
  shows "read_digits E negative (show_nat n) = Some (if negative then - int n else int n)"
proof -
  have "filter (\<lambda>c. 48 \<le> c \<and> c \<le> 57) (show_nat n) = show_nat n"
    using show_nat_digits [of _ n] by (simp add: filter_id_conv)
  with assms show ?thesis
    by (simp add: read_digits_def parse_digits_show_nat0)
qed

lemma py_int_show_int:
  assumes "digits_allowed E (length (show_nat (nat \<bar>i\<bar>)))"
  shows "py_int E (show_int i) = Some i"
proof -
  have t: "strip_ascii (to_ascii E (show_int i)) = show_int i"
    using show_int_chars [of _ i] by (simp add: to_ascii_id strip_ascii_id)
  show ?thesis
  proof (cases "i < 0")
    case True
    then have n: "nat \<bar>i\<bar> = nat (- i)" by simp
    from True have "py_int E (show_int i) = read_digits E True (show_nat (nat (- i)))"
      unfolding py_int_def t by (simp add: show_int_def)
    with read_digits_show_nat [of E "nat (- i)" True] assms n True show ?thesis by simp
  next
    case False
    then have n: "nat \<bar>i\<bar> = nat i" by simp
    obtain c cs where cs: "show_nat (nat i) = c # cs"
      using show_nat_nonempty [of "nat i"] by (cases "show_nat (nat i)") auto
    then have "c \<in> set (show_nat (nat i))" by simp
    then have "48 \<le> c \<and> c \<le> 57" by (rule show_nat_digits)
    then have "c \<noteq> 43" "c \<noteq> 45" by simp_all
    with False cs have "py_int E (show_int i) = read_digits E False (show_nat (nat i))"
      unfolding py_int_def t by (simp add: show_int_def)
    with read_digits_show_nat [of E "nat i" False] assms n False show ?thesis by simp
  qed
qed

text \<open>A number that is too long for the interpreter is not read back.\<close>

lemma py_int_refuses_long:
  assumes "0 < max_str_digits E" and "640 < length (show_nat n)"
    and "max_str_digits E < length (show_nat n)"
  shows "py_int E (show_int (int n)) = None"
proof -
  have t: "strip_ascii (to_ascii E (show_int (int n))) = show_int (int n)"
    using show_int_chars [of _ "int n"] by (simp add: to_ascii_id strip_ascii_id)
  obtain c cs where cs: "show_nat n = c # cs"
    using show_nat_nonempty [of n] by (cases "show_nat n") auto
  then have "c \<in> set (show_nat n)" by simp
  then have "48 \<le> c \<and> c \<le> 57" by (rule show_nat_digits)
  then have "c \<noteq> 43" "c \<noteq> 45" by simp_all
  with cs have p: "py_int E (show_int (int n)) = read_digits E False (show_nat n)"
    unfolding py_int_def t by (simp add: show_int_def)
  have "filter (\<lambda>c. 48 \<le> c \<and> c \<le> 57) (show_nat n) = show_nat n"
    using show_nat_digits [of _ n] by (simp add: filter_id_conv)
  with assms have "read_digits E False (show_nat n) = None"
    by (simp add: read_digits_def digits_allowed_def parse_digits_show_nat0)
  with p show ?thesis by simp
qed

lemma show_int_token: "show_int i \<noteq> [] \<and> (\<forall>c\<in>set (show_int i). \<not> isspace c)"
proof -
  have "\<not> isspace c" if "c \<in> set (show_nat n)" for c n
    using show_nat_digits [OF that] by (simp add: isspace_def)
  moreover have "\<not> isspace 45" by (simp add: isspace_def)
  ultimately show ?thesis by (auto simp: show_int_def show_nat_nonempty)
qed

subsection \<open>The header and the signs of exported rows\<close>

lemma getattr_flag_order:
  assumes "wf_perms P" "(n, k) \<in> set (flag_order P)"
  shows "getattr_Permissions P n = Some (Flag (2 ^ k))"
proof -
  from assms have "map_of (flag_order P) n = Some k"
    by (simp add: wf_perms_def)
  then have "map_of (flag_order P @ alias_flags P) n = Some k"
    by (simp add: map_add_Some_iff)
  then show ?thesis by (simp add: getattr_Permissions_def)
qed

lemma collect_flags_flag_order:
  assumes "wf_perms P"
  shows "set fo \<subseteq> set (flag_order P) \<Longrightarrow>
         collect_flags P (map fst fo) = Inr (map (\<lambda>(n, k). (Flag (2 ^ k), n)) fo)"
proof (induction fo)
  case Nil
  then show ?case by simp
next
  case (Cons p fo)
  obtain n k where p: "p = (n, k)" by (cases p)
  with Cons.prems have "getattr_Permissions P n = Some (Flag (2 ^ k))"
    by (auto intro: getattr_flag_order [OF assms])
  with Cons p show ?case by simp
qed

lemma parse_header_export:
  assumes "wf_perms P"
  shows "parse_header P (header_row P) = Inr (import_flags P)"
proof -
  have "map fst (iter_Permissions P 0) = map fst (flag_order P)"
    by (simp add: iter_Permissions_def comp_def case_prod_beta)
  then have "drop 3 (header_row P) = map fst (flag_order P)"
    by (simp add: header_row_def)
  moreover have "\<not> (length (header_row P) < 3 \<or> header_row P ! 0 \<noteq> lit ''Category''
      \<or> header_row P ! 1 \<noteq> lit ''Channel'' \<or> header_row P ! 2 \<noteq> lit ''Role/User'')"
    by (simp add: header_row_def)
  ultimately show ?thesis
    unfolding parse_header_def import_flags_def
    using collect_flags_flag_order [OF assms, of "flag_order P"] by simp
qed

lemma bit_and_pow: "(v AND 2 ^ k = 0) = (\<not> bit (v::int) k)"
  by (simp add: bit_iff_and_push_bit_not_eq_0 push_bit_eq_mult)

lemma role_scan_export:
  "role_scan perms
     (zip (map (\<lambda>(n, k). (Flag (2 ^ k), n)) fo)
          (map (\<lambda>(n, v). if v then lit ''+'' else lit ''-'') (map (\<lambda>(n, k). (n, bit perms k)) fo)))
     acc = Inr acc"
proof (induction fo)
  case Nil
  then show ?case by simp
next
  case (Cons p fo)
  obtain n k where p: "p = (n, k)" by (cases p)
  obtain changes a r where acc: "acc = (changes, a, r)" by (cases acc)
  show ?case using Cons.IH unfolding p acc by (simp add: bit_and_pow)
qed

lemma overwrite_scan_export:
  "overwrite_scan ow
     (zip (map (\<lambda>(n, k). (Flag (2 ^ k), n)) fo)
          (map (\<lambda>((flag, allow), (n, deny)).
                  if allow then lit ''+'' else if deny then lit ''-'' else lit ''/'')
             (zip (map (\<lambda>(n, k). (n, bit (fst ow) k)) fo) (map (\<lambda>(n, k). (n, bit (snd ow) k)) fo))))
     acc = Inr acc"
proof (induction fo)
  case Nil
  then show ?case by simp
next
  case (Cons p fo)
  obtain n k where p: "p = (n, k)" by (cases p)
  obtain changes a r z where acc: "acc = (changes, a, r, z)" by (cases acc)
  show ?case using Cons.IH unfolding p acc by (simp add: bit_and_pow)
qed

subsection \<open>Names of exported rows resolve to their objects\<close>

lemma roles_dict_get:
  assumes "distinct (map role_name (roles g))" "r \<in> set (roles g)"
  shows "dict_get (roles_dict g) (role_name r) = Some r"
  unfolding roles_dict_def
proof (rule dict_get_unique [OF assms(2)])
  show "\<forall>y\<in>set (roles g). role_name y = role_name r \<longrightarrow> y = r"
    using assms by (auto simp: distinct_map inj_on_def)
qed

lemma channels_dict_get:
  assumes "wf_guild g" "c \<in> set (channels g)"
  shows "dict_get (map (\<lambda>c. (occurrence_label g c, c)) (channels g)) (occurrence_label g c) = Some c"
proof (rule dict_get_unique [OF assms(2)])
  from assms(1) have "distinct (map (occurrence_label g) (channels g))"
    by (simp add: wf_guild_def)
  then show "\<forall>y\<in>set (channels g). occurrence_label g y = occurrence_label g c \<longrightarrow> y = c"
    using assms(2) by (auto simp: distinct_map inj_on_def)
qed

lemma get_member_member:
  assumes "distinct (map member_id (members g))" "m \<in> set (members g)"
  shows "get_member g (member_id m) = Some m"
proof (cases "get_member g (member_id m)")
  case None
  with assms(2) show ?thesis by (auto simp: get_member_def find_None_iff)
next
  case (Some m')
  then have "member_id m' = member_id m" "m' \<in> set (members g)"
    by (auto dest: get_member_id)
  with assms have "m' = m" by (auto simp: distinct_map inj_on_def)
  with Some show ?thesis by simp
qed

lemma resolve_target_export:
  assumes "wf_guild g" "wf_target g t" "readable_target E t"
  shows "resolve_target E g (roles_dict g) (target_name t) = Inr t"
proof (cases t)
  case (TRole r)
  with assms have "dict_get (roles_dict g) (role_name r) = Some r"
    by (auto simp: wf_guild_def wf_target_def intro: roles_dict_get)
  then show ?thesis
    unfolding resolve_target_def target_name_def TRole
    by (simp only: target.case startswith_append removeprefix_append if_True Let_def option.case)
next
  case (TMember m)
  have pad: "\<forall>c\<in>set []. isspace c" by simp
  have tk: "show_int (member_id m) \<noteq> []" "\<forall>c\<in>set (show_int (member_id m)). \<not> isspace c"
    using show_int_token [of "member_id m"] by simp_all
  have sp: "lit '' '' @ member_name m = [] \<or> isspace (hd (lit '' '' @ member_name m))"
    by (simp add: isspace_def)
  from assms(3) TMember have pi: "py_int E (show_int (member_id m)) = Some (member_id m)"
    by (intro py_int_show_int) (simp add: readable_target_def)
  from assms TMember have "get_member g (member_id m) = Some m"
    by (auto simp: wf_guild_def wf_target_def intro: get_member_member)
  with resolve_eq [OF pad tk sp, where E = E and g = g and rls = "roles_dict g"] TMember pi
  show ?thesis
    by (simp add: target_name_def)
qed

lemma overwrites_for_export:
  assumes "distinct (map (\<lambda>p. target_id (fst p)) ows)" "(t, ow) \<in> set ows"
  shows "find (\<lambda>(t', overwrite). target_id t' = target_id t) ows = Some (t, ow)"
  using assms
proof (induction ows)
  case Nil
  then show ?case by simp
next
  case (Cons p ows)
  show ?case
  proof (cases "p = (t, ow)")
    case True
    then show ?thesis by simp
  next
    case False
    with Cons.prems have m: "(t, ow) \<in> set ows" by simp
    then have "(\<lambda>p. target_id (fst p)) (t, ow) \<in> (\<lambda>p. target_id (fst p)) ` set ows"
      by (rule imageI)
    then have "target_id t \<in> (\<lambda>p. target_id (fst p)) ` set ows" by simp
    moreover from Cons.prems(1) have "target_id (fst p) \<notin> (\<lambda>p. target_id (fst p)) ` set ows"
      by simp
    ultimately have "target_id (fst p) \<noteq> target_id t" by metis
    with Cons m show ?thesis by (simp add: case_prod_beta)
  qed
qed

lemma role_row_export:
  assumes "wf_guild g" "r \<in> set (roles g)"
  shows "process_row E g chans (roles_dict g) (import_flags P) st (export_role_row P r) = Inr st"
proof -
  let ?row = "export_role_row P r"
  have a: "\<not> length ?row < 3" "?row ! 0 = []" "?row ! 1 = []"
    "?row ! 2 = lit ''Role '' @ role_name r"
    "drop 3 ?row = map (\<lambda>(n, v). if v then lit ''+'' else lit ''-'')
                      (map (\<lambda>(n, k). (n, bit (role_permissions r) k)) (flag_order P))"
    by (simp_all add: export_role_row_def iter_Permissions_def)
  have d: "dict_get (roles_dict g) (role_name r) = Some r"
    using assms by (auto simp: wf_guild_def intro: roles_dict_get)
  show ?thesis
    unfolding process_row_def role_row_def
    by (simp only: a d if_True if_False startswith_append removeprefix_append Let_def
        import_flags_def role_scan_export simp_thms option.case and_then_simps)
       simp
qed

subsection \<open>The header cells of a channel\<close>

lemma wf_channelD:
  assumes "wf_guild g" "c \<in> set (channels g)"
  shows "wf_channel g c"
  using assms by (simp add: wf_guild_def list_all_iff)

lemma chan_category_in:
  "chan_category g c = Some cat \<Longrightarrow> cat \<in> set (channels g)"
  by (auto simp: chan_category_def get_channel_def find_Some_iff split: option.splits)

lemma occurrence_label_nonempty: "chan_name c \<noteq> [] \<Longrightarrow> occurrence_label g c \<noteq> []"
  by (simp add: occurrence_label_def Let_def)

lemma channel_header_export:
  assumes "wf_guild g" "c \<in> set (channels g)"
  shows "channel_header g c = Some (header_cells g c)"
proof -
  have d: "distinct (map chan_id (channels g))" using assms(1) by (simp add: wf_guild_def)
  have l: "disambiguated_name g x = Some (occurrence_label g x)" if "x \<in> set (channels g)" for x
    using disambiguated_name_label [OF d that] .
  show ?thesis
  proof (cases "chan_category g c")
    case None
    with l [OF assms(2)] show ?thesis by (simp add: channel_header_def header_cells_def)
  next
    case (Some cat)
    with l [OF assms(2)] l [OF chan_category_in [OF Some]] show ?thesis
      by (simp add: channel_header_def header_cells_def)
  qed
qed

lemma lookup_category_export:
  assumes "wf_guild g" "cat \<in> set (channels g)" "is_category cat"
  shows "lookup_category (label_dict g) (occurrence_label g cat) = Inr cat"
  using channels_dict_get [OF assms(1,2)] assms(3)
  by (simp add: lookup_category_def label_dict_def)

lemma resolve_channel_export:
  assumes "wf_guild g" "c \<in> set (channels g)"
  shows "resolve_channel (label_dict g) (header_cells g c @ x # signs)
         = Inr (if is_category c then None else chan_category g c, c)"
proof -
  have wc: "wf_channel g c" using assms by (rule wf_channelD)
  then have ne: "occurrence_label g c \<noteq> []"
    by (simp add: wf_channel_def occurrence_label_nonempty)
  have dc: "dict_get (label_dict g) (occurrence_label g c) = Some c"
    using channels_dict_get [OF assms] by (simp add: label_dict_def)
  show ?thesis
  proof (cases "is_category c")
    case True
    with lookup_category_export [OF assms True] show ?thesis
      by (simp add: resolve_channel_def header_cells_def)
  next
    case False
    show ?thesis
    proof (cases "chan_category g c")
      case None
      with False ne dc show ?thesis
        by (simp add: resolve_channel_def header_cells_def)
    next
      case (Some cat)
      have ci: "cat \<in> set (channels g)" using Some by (rule chan_category_in)
      have ic: "is_category cat" using wc Some by (simp add: wf_channel_def)
      have "wf_channel g cat" using assms(1) ci by (rule wf_channelD)
      then have nec: "occurrence_label g cat \<noteq> []"
        by (simp add: wf_channel_def occurrence_label_nonempty)
      from False Some ne nec dc lookup_category_export [OF assms(1) ci ic] show ?thesis
        by (simp add: resolve_channel_def header_cells_def)
    qed
  qed
qed

lemma header_cells_row:
  assumes "wf_guild g" "c \<in> set (channels g)"
  shows "\<not> length (header_cells g c @ x # signs) < 3"
    and "\<not> ((header_cells g c @ x # signs) ! 0 = [] \<and> (header_cells g c @ x # signs) ! 1 = [])"
    and "(header_cells g c @ x # signs) ! 2 = x"
    and "drop 3 (header_cells g c @ x # signs) = signs"
proof -
  have wc: "wf_channel g c" using assms by (rule wf_channelD)
  then have ne: "occurrence_label g c \<noteq> []"
    by (simp add: wf_channel_def occurrence_label_nonempty)
  have l: "length (header_cells g c) = 2"
    by (simp add: header_cells_def split: option.splits)
  then obtain a b where ab: "header_cells g c = [a, b]"
    by (cases "header_cells g c"; cases "tl (header_cells g c)") auto
  have "a \<noteq> [] \<or> b \<noteq> []" using ab ne
    by (auto simp: header_cells_def split: if_splits option.splits)
  then show "\<not> ((header_cells g c @ x # signs) ! 0 = [] \<and> (header_cells g c @ x # signs) ! 1 = [])"
    using ab by auto
  show "\<not> length (header_cells g c @ x # signs) < 3" using l by simp
  show "(header_cells g c @ x # signs) ! 2 = x" using ab by simp
  show "drop 3 (header_cells g c @ x # signs) = signs" using ab by simp
qed

lemma move_channel_export:
  "move_channel g st c (if is_category c then None else chan_category g c) = Inr st"
  by (simp add: move_channel_def)

lemma synced_not_category:
  assumes "wf_channel g c" "permissions_synced g c"
  shows "\<not> is_category c"
proof
  assume "is_category c"
  with assms(1) have "chan_category g c = None" by (simp add: wf_channel_def chan_category_def)
  with assms(2) show False by (simp add: permissions_synced_def)
qed

subsection \<open>The rows of a channel, read back\<close>

lemma move_channel_same: "move_channel g st c (chan_category g c) = Inr st"
  by (simp add: move_channel_def)

lemma channel_row_plain:
  assumes "wf_guild g" "c \<in> set (channels g)"
  shows "process_row E g (label_dict g) (roles_dict g) flags st (header_cells g c @ [[]])
         = Inr (st\<lparr>channel_var := Some c,
                   new_overwrites := AList.update c (overwrites_of st c) (new_overwrites st)\<rparr>)"
proof -
  note h = header_cells_row [OF assms, of "[]" "[]"]
  show ?thesis
    unfolding process_row_def channel_row_def
    by (simp only: h resolve_channel_export [OF assms] and_then_simps prod.case
          move_channel_export move_channel_same if_False simp_thms)
       (simp add: overwrites_of_def)
qed

lemma channel_row_synced:
  assumes "wf_guild g" "c \<in> set (channels g)" "permissions_synced g c"
  shows "process_row E g (label_dict g) (roles_dict g) flags st (header_cells g c @ [lit ''(synced)''])
         = Inr (st\<lparr>channel_var := Some c, want_sync := set_add c (want_sync st)\<rparr>)"
proof -
  note h = header_cells_row [OF assms(1,2), of "lit ''(synced)''" "[]"]
  have nc: "\<not> is_category c"
    using wf_channelD [OF assms(1,2)] assms(3) by (rule synced_not_category)
  show ?thesis
    unfolding process_row_def channel_row_def
    by (simp only: h resolve_channel_export [OF assms(1,2)] and_then_simps prod.case
          move_channel_export move_channel_same if_False if_True simp_thms nc)
       simp
qed

lemma target_name_not_marker: "target_name t \<noteq> lit ''(synced)''" "target_name t \<noteq> []"
  by (cases t; simp add: target_name_def)+

lemma channel_row_target:
  assumes "wf_guild g" "wf_perms P" "c \<in> set (channels g)" "(t, ow) \<in> set (overwrites c)"
    and rd: "readable_target E t"
  shows "process_row E g (label_dict g) (roles_dict g) (import_flags P) st
           (header_cells g c @ [target_name t] @ overwrite_signs P ow)
         = Inr (st\<lparr>channel_var := Some c,
                   new_overwrites :=
                     AList.update c (AList.update t (0, 0, 0) (overwrites_of (st\<lparr>channel_var := Some c\<rparr>) c))
                       (new_overwrites st)\<rparr>)"
proof -
  note h = header_cells_row [OF assms(1,3), of "target_name t" "overwrite_signs P ow",
      unfolded append_Cons [symmetric] append_Nil [symmetric]]
  have wc: "wf_channel g c" using assms(1,3) by (rule wf_channelD)
  with assms(4) have wt: "wf_target g t"
    by (auto simp: wf_channel_def list_all_iff)
  have rt: "resolve_target E g (roles_dict g) (target_name t) = Inr t"
    using assms(1) wt rd by (rule resolve_target_export)
  have d: "distinct (map (\<lambda>p. target_id (fst p)) (overwrites c))"
    using wc by (simp add: wf_channel_def)
  have of: "overwrites_for c t = ow"
    unfolding overwrites_for_def
    by (simp add: overwrites_for_export [OF d assms(4)])
  have sc: "overwrite_scan ow (zip (import_flags P) (overwrite_signs P ow)) ([], 0, 0, 0)
            = Inr ([], 0, 0, 0)"
    unfolding import_flags_def overwrite_signs_def iter_Permissions_def
    by (rule overwrite_scan_export)
  have r: "header_cells g c @ [target_name t] @ overwrite_signs P ow
           = header_cells g c @ target_name t # overwrite_signs P ow" by simp
  note h' = header_cells_row [OF assms(1,3), of "target_name t" "overwrite_signs P ow"]
  show ?thesis
    unfolding process_row_def channel_row_def target_row_def r
    by (simp only: h' resolve_channel_export [OF assms(1,3)] and_then_simps prod.case
          move_channel_export move_channel_same if_False simp_thms target_name_not_marker rt of sc)
       simp
qed

subsection \<open>The invariant of the first pass\<close>

lemma set_update_subset: "set (AList.update k v al) \<subseteq> insert (k, v) (set al)"
  by (induction al) (auto simp: AList.update.simps)

lemma overwrites_of_upd [simp]:
  "overwrites_of (st\<lparr>channel_var := x\<rparr>) c = overwrites_of st c"
  "overwrites_of (st\<lparr>want_sync := w\<rparr>) c = overwrites_of st c"
  "overwrites_of (st\<lparr>new_overwrites := AList.update c v (new_overwrites st)\<rparr>) c = v"
  by (simp_all add: overwrites_of_def update_conv')

lemma overwrites_of_zero:
  assumes "roundtrip_inv g cur st"
  shows "list_all (\<lambda>p. snd p = (0, 0, 0)) (overwrites_of st c)"
proof (cases "map_of (new_overwrites st) c")
  case None
  then show ?thesis by (simp add: overwrites_of_def)
next
  case (Some d)
  then have "(c, d) \<in> set (new_overwrites st)" by (rule map_of_SomeD)
  with assms have "list_all (\<lambda>p. snd p = (0, 0, 0)) d"
    by (auto simp: roundtrip_inv_def list_all_iff)
  with Some show ?thesis by (simp add: overwrites_of_def)
qed

lemma inv_update:
  assumes inv: "roundtrip_inv g cur st"
    and cur: "cur = None \<or> cur = Some c"
    and z: "list_all (\<lambda>p. snd p = (0, 0, 0)) v"
  shows "roundtrip_inv g (Some c)
           (st\<lparr>channel_var := Some c, new_overwrites := AList.update c v (new_overwrites st)\<rparr>)"
proof -
  let ?nov = "AList.update c v (new_overwrites st)"
  have d: "distinct (map fst ?nov)"
    using inv by (simp add: roundtrip_inv_def distinct_update)
  have "list_all (\<lambda>p. snd p = (0, 0, 0)) d'
        \<and> (Some c' \<noteq> Some c \<longrightarrow> list_all (\<lambda>t. t \<in> fst ` set d') (map fst (overwrites c')))"
    if "(c', d') \<in> set ?nov" for c' d'
  proof (cases "(c', d') = (c, v)")
    case True
    with z show ?thesis by simp
  next
    case False
    with that set_update_subset [of c v "new_overwrites st"]
    have m: "(c', d') \<in> set (new_overwrites st)" by auto
    with inv have a: "list_all (\<lambda>p. snd p = (0, 0, 0)) d'"
      and b: "Some c' \<noteq> cur \<longrightarrow> list_all (\<lambda>t. t \<in> fst ` set d') (map fst (overwrites c'))"
      by (auto simp: roundtrip_inv_def list_all_iff)
    from b cur have "Some c' \<noteq> Some c \<longrightarrow> list_all (\<lambda>t. t \<in> fst ` set d') (map fst (overwrites c'))"
      by auto
    with a show ?thesis by simp
  qed
  then have "list_all (\<lambda>(c', d). list_all (\<lambda>p. snd p = (0, 0, 0)) d
                     \<and> (Some c' \<noteq> Some c \<longrightarrow> list_all (\<lambda>t. t \<in> fst ` set d) (map fst (overwrites c'))))
           ?nov"
    unfolding list_all_iff by auto
  with d inv show ?thesis by (simp add: roundtrip_inv_def)
qed

lemma inv_synced:
  assumes "roundtrip_inv g None st" "permissions_synced g c"
  shows "roundtrip_inv g None (st\<lparr>channel_var := Some c, want_sync := set_add c (want_sync st)\<rparr>)"
  using assms by (simp add: roundtrip_inv_def list_all_iff)

lemma inv_finish:
  assumes inv: "roundtrip_inv g (Some c) st"
    and cov: "fst ` set (overwrites c) \<subseteq> fst ` set (overwrites_of st c)"
  shows "roundtrip_inv g None st"
proof -
  have "list_all (\<lambda>p. snd p = (0, 0, 0)) d'
        \<and> (Some c' \<noteq> None \<longrightarrow> list_all (\<lambda>t. t \<in> fst ` set d') (map fst (overwrites c')))"
    if m: "(c', d') \<in> set (new_overwrites st)" for c' d'
  proof -
    from inv m have a: "list_all (\<lambda>p. snd p = (0, 0, 0)) d'"
      and b: "Some c' \<noteq> Some c \<longrightarrow> list_all (\<lambda>t. t \<in> fst ` set d') (map fst (overwrites c'))"
      by (auto simp: roundtrip_inv_def list_all_iff)
    have "list_all (\<lambda>t. t \<in> fst ` set d') (map fst (overwrites c'))"
    proof (cases "c' = c")
      case True
      from inv have "distinct (map fst (new_overwrites st))" by (simp add: roundtrip_inv_def)
      with m True have "map_of (new_overwrites st) c = Some d'" by simp
      then have "overwrites_of st c = d'" by (simp add: overwrites_of_def)
      with cov True show ?thesis by (auto simp: list_all_iff)
    next
      case False
      with b show ?thesis by simp
    qed
    with a show ?thesis by simp
  qed
  then have "list_all (\<lambda>(c', d). list_all (\<lambda>p. snd p = (0, 0, 0)) d
                     \<and> (Some c' \<noteq> None \<longrightarrow> list_all (\<lambda>t. t \<in> fst ` set d) (map fst (overwrites c'))))
           (new_overwrites st)"
    unfolding list_all_iff by fastforce
  with inv show ?thesis by (simp add: roundtrip_inv_def)
qed

subsection \<open>Reading back the exported rows\<close>

lemma process_rows_append:
  "process_rows E g chans rls flags st (xs @ ys)
   = and_then (process_rows E g chans rls flags st xs) (\<lambda>st'. process_rows E g chans rls flags st' ys)"
proof (induction xs arbitrary: st)
  case Nil
  then show ?case by simp
next
  case (Cons x xs)
  then show ?case
    by (cases "process_row E g chans rls flags st x") simp_all
qed

lemma role_rows_export:
  assumes "wf_guild g"
  shows "set rs \<subseteq> set (roles g) \<Longrightarrow>
    process_rows E g chans (roles_dict g) (import_flags P) st (map (export_role_row P) rs) = Inr st"
proof (induction rs)
  case Nil
  then show ?case by simp
next
  case (Cons r rs)
  then have "r \<in> set (roles g)" by simp
  from role_row_export [OF assms this] Cons show ?case by simp
qed

lemma target_rows_export:
  assumes "wf_guild g" "wf_perms P" "c \<in> set (channels g)" and rd: "ids_readable E g"
  shows "set ts \<subseteq> set (overwrites c) \<Longrightarrow> roundtrip_inv g (Some c) st \<Longrightarrow>
     \<exists>st'. process_rows E g (label_dict g) (roles_dict g) (import_flags P) st
             (map (\<lambda>(target, ow). header_cells g c @ [target_name target] @ overwrite_signs P ow) ts)
           = Inr st'
       \<and> roundtrip_inv g (Some c) st'
       \<and> fst ` set ts \<union> fst ` set (overwrites_of st c) \<subseteq> fst ` set (overwrites_of st' c)"
proof (induction ts arbitrary: st)
  case Nil
  then show ?case by simp
next
  case (Cons p ts)
  obtain t ow where p: "p = (t, ow)" by (cases p)
  with Cons.prems have m: "(t, ow) \<in> set (overwrites c)" by simp
  let ?v = "AList.update t (0, 0, 0) (overwrites_of st c)"
  let ?st = "st\<lparr>channel_var := Some c, new_overwrites := AList.update c ?v (new_overwrites st)\<rparr>"
  have row: "process_row E g (label_dict g) (roles_dict g) (import_flags P) st
           (header_cells g c @ [target_name t] @ overwrite_signs P ow) = Inr ?st"
  proof -
    from rd assms(3) m have "readable_target E (fst (t, ow))"
      unfolding ids_readable_def list_all_iff by blast
    then have "readable_target E t" by simp
    from channel_row_target [OF assms(1,2,3) m this, where st = st] show ?thesis by simp
  qed
  have "list_all (\<lambda>p. snd p = (0, 0, 0)) (overwrites_of st c)"
    using Cons.prems(2) by (rule overwrites_of_zero)
  with set_update_subset [of t "(0, 0, 0)" "overwrites_of st c"]
  have z: "list_all (\<lambda>p. snd p = (0, 0, 0)) ?v" by (auto simp: list_all_iff)
  have inv: "roundtrip_inv g (Some c) ?st"
    using Cons.prems(2) _ z by (rule inv_update) simp
  have ov: "overwrites_of ?st c = ?v"
    by (simp add: overwrites_of_def update_conv')
  from Cons.prems(1) have sub: "set ts \<subseteq> set (overwrites c)" by simp
  from Cons.IH [OF sub inv] obtain st' where r:
    "process_rows E g (label_dict g) (roles_dict g) (import_flags P) ?st
             (map (\<lambda>(target, ow). header_cells g c @ [target_name target] @ overwrite_signs P ow) ts)
           = Inr st'"
    "roundtrip_inv g (Some c) st'"
    "fst ` set ts \<union> fst ` set (overwrites_of ?st c) \<subseteq> fst ` set (overwrites_of st' c)"
    by blast
  have "fst ` set ?v = {t} \<union> fst ` set (overwrites_of st c)" by (rule dom_update)
  with r(3) ov have "fst ` set (p # ts) \<union> fst ` set (overwrites_of st c)
      \<subseteq> fst ` set (overwrites_of st' c)" using p by auto
  moreover have "process_rows E g (label_dict g) (roles_dict g) (import_flags P) st
             (map (\<lambda>(target, ow). header_cells g c @ [target_name target] @ overwrite_signs P ow) (p # ts))
           = Inr st'"
    using row r(1) p by simp
  ultimately show ?case using r(2) by blast
qed

lemma channel_block_export:
  assumes "wf_guild g" "wf_perms P" "c \<in> set (channels g)" "roundtrip_inv g None st"
    and rd: "ids_readable E g"
  shows "\<exists>rows st'. export_channel_rows P g c = Some rows
     \<and> process_rows E g (label_dict g) (roles_dict g) (import_flags P) st rows = Inr st'
     \<and> roundtrip_inv g None st'"
proof (cases "permissions_synced g c")
  case True
  let ?st = "st\<lparr>channel_var := Some c, want_sync := set_add c (want_sync st)\<rparr>"
  have e: "export_channel_rows P g c = Some [header_cells g c @ [lit ''(synced)'']]"
    using True by (simp add: export_channel_rows_def channel_header_export [OF assms(1,3)])
  have "process_rows E g (label_dict g) (roles_dict g) (import_flags P) st
          [header_cells g c @ [lit ''(synced)'']] = Inr ?st"
    using channel_row_synced [OF assms(1,3) True, where flags = "import_flags P" and st = st
        and E = E] by simp
  moreover have "roundtrip_inv g None ?st" using assms(4) True by (rule inv_synced)
  ultimately show ?thesis using e by blast
next
  case False
  let ?rows = "map (\<lambda>(target, ow). header_cells g c @ [target_name target] @ overwrite_signs P ow)
                 (sorted_overwrites g c)"
  let ?st = "st\<lparr>channel_var := Some c,
                 new_overwrites := AList.update c (overwrites_of st c) (new_overwrites st)\<rparr>"
  have e: "export_channel_rows P g c = Some ((header_cells g c @ [[]]) # ?rows)"
    using False by (simp add: export_channel_rows_def channel_header_export [OF assms(1,3)])
  have first: "process_row E g (label_dict g) (roles_dict g) (import_flags P) st
          (header_cells g c @ [[]]) = Inr ?st"
    by (rule channel_row_plain [OF assms(1,3)])
  have z: "list_all (\<lambda>p. snd p = (0, 0, 0)) (overwrites_of st c)"
    using assms(4) by (rule overwrites_of_zero)
  have inv: "roundtrip_inv g (Some c) ?st"
    using assms(4) _ z by (rule inv_update) simp
  have s: "set (sorted_overwrites g c) = set (overwrites c)"
    by (simp add: sorted_overwrites_def)
  then have sub: "set (sorted_overwrites g c) \<subseteq> set (overwrites c)" by simp
  from target_rows_export [OF assms(1,2,3) rd sub inv] obtain st' where r:
    "process_rows E g (label_dict g) (roles_dict g) (import_flags P) ?st ?rows = Inr st'"
    "roundtrip_inv g (Some c) st'"
    "fst ` set (sorted_overwrites g c) \<union> fst ` set (overwrites_of ?st c)
       \<subseteq> fst ` set (overwrites_of st' c)"
    by blast
  from r(3) s have "fst ` set (overwrites c) \<subseteq> fst ` set (overwrites_of st' c)" by simp
  with r(2) have "roundtrip_inv g None st'" by (rule inv_finish)
  moreover have "process_rows E g (label_dict g) (roles_dict g) (import_flags P) st
      ((header_cells g c @ [[]]) # ?rows) = Inr st'"
    using first r(1) by simp
  ultimately show ?thesis using e by blast
qed

lemma channel_blocks_export:
  assumes "wf_guild g" "wf_perms P" and rd: "ids_readable E g"
  shows "set cs \<subseteq> set (channels g) \<Longrightarrow> roundtrip_inv g None st \<Longrightarrow>
     \<exists>rs st'. those (map (export_channel_rows P g) cs) = Some rs
       \<and> process_rows E g (label_dict g) (roles_dict g) (import_flags P) st (concat rs) = Inr st'
       \<and> roundtrip_inv g None st'"
proof (induction cs arbitrary: st)
  case Nil
  then show ?case by simp
next
  case (Cons c cs)
  then have c: "c \<in> set (channels g)" and sub: "set cs \<subseteq> set (channels g)" by simp_all
  from channel_block_export [OF assms(1,2) c Cons.prems(2) rd] obtain rows st1 where b:
    "export_channel_rows P g c = Some rows"
    "process_rows E g (label_dict g) (roles_dict g) (import_flags P) st rows = Inr st1"
    "roundtrip_inv g None st1" by blast
  from Cons.IH [OF sub b(3)] obtain rs st' where r:
    "those (map (export_channel_rows P g) cs) = Some rs"
    "process_rows E g (label_dict g) (roles_dict g) (import_flags P) st1 (concat rs) = Inr st'"
    "roundtrip_inv g None st'" by blast
  have "those (map (export_channel_rows P g) (c # cs)) = Some (rows # rs)"
    using b(1) r(1) by simp
  moreover have "process_rows E g (label_dict g) (roles_dict g) (import_flags P) st
      (concat (rows # rs)) = Inr st'"
    using b(2) r(2) by (simp add: process_rows_append)
  ultimately show ?case using r(3) by blast
qed

lemma roundtrip_inv_initial: "roundtrip_inv g None initial_state"
  by (simp add: roundtrip_inv_def initial_state_def)

subsection \<open>The second pass, and the round trip\<close>

lemma overwrites_pass_quiet:
  assumes "list_all (\<lambda>(c, d). list_all (\<lambda>p. snd p = (0, 0, 0)) d
                     \<and> list_all (\<lambda>t. t \<in> fst ` set d) (map fst (overwrites c))) nov"
    and "out_notes st = []" and "overwrites_changed st = []"
    and "nov \<noteq> [] \<longrightarrow> channel_var st \<noteq> None" and "list_all is_noop_edit (actions st)"
  shows "\<exists>st'. overwrites_pass nov st = Inr st' \<and> out_notes st' = []
    \<and> overwrites_changed st' = [] \<and> seen_moved st' = seen_moved st
    \<and> want_sync st' = want_sync st \<and> list_all is_noop_edit (actions st')"
  using assms
proof (induction nov arbitrary: st)
  case Nil
  then show ?case by simp
next
  case (Cons p nov)
  obtain chan d where p: "p = (chan, d)" by (cases p)
  from Cons.prems(4) obtain ch where ch: "channel_var st = Some ch" by auto
  from Cons.prems(1) p have z: "list_all (\<lambda>p. snd p = (0, 0, 0)) d"
    and k: "list_all (\<lambda>t. t \<in> fst ` set d) (map fst (overwrites chan))"
    and rest: "list_all (\<lambda>(c, d). list_all (\<lambda>p. snd p = (0, 0, 0)) d
                     \<and> list_all (\<lambda>t. t \<in> fst ` set d) (map fst (overwrites c))) nov"
    by simp_all
  show ?case
  proof (cases "ch \<in> set (want_sync st)")
    case True
    have "nov \<noteq> [] \<longrightarrow> channel_var st \<noteq> None" using ch by simp
    from Cons.IH [OF rest Cons.prems(2,3) this Cons.prems(5)] True ch p show ?thesis by simp
  next
    case False
    have nz: "\<not> list_ex (\<lambda>(t, a, r, z). a \<noteq> 0 \<or> r \<noteq> 0 \<or> z \<noteq> 0) d"
      using z by (auto simp: list_all_iff list_ex_iff)
    have rm: "filter (\<lambda>t. t \<notin> fst ` set d) (map fst (overwrites chan)) = []"
      using k by (auto simp: list_all_iff filter_empty_conv)
    let ?st = "st\<lparr>channel_var := Some chan, overwrites_changed := overwrites_changed st,
                   out_notes := out_notes st @ [],
                   actions := actions st @ [EditOverwrites chan d]\<rparr>"
    have step: "overwrites_pass (p # nov) st = overwrites_pass nov ?st"
      using ch False p nz rm by (simp add: Let_def)
    have a: "out_notes ?st = []" using Cons.prems(2) by simp
    have b: "overwrites_changed ?st = []" using Cons.prems(3) by simp
    have c: "nov \<noteq> [] \<longrightarrow> channel_var ?st \<noteq> None" by simp
    have "is_noop_edit (EditOverwrites chan d)"
      using z k by (simp add: is_noop_edit_def)
    with Cons.prems(5) have e: "list_all is_noop_edit (actions ?st)" by simp
    from Cons.IH [OF rest a b c e] step show ?thesis by simp
  qed
qed

lemma sync_pass_quiet:
  assumes "list_all (permissions_synced g) ws" "seen_moved st = []" "overwrites_changed st = []"
  shows "\<exists>st'. sync_pass g ws st = Inr st' \<and> out_notes st' = out_notes st
    \<and> actions st' = actions st"
proof -
  have nc: "new_category g st c = chan_category g c" for c
    using assms(2) by (simp add: new_category_def)
  have some: "\<forall>c\<in>set ws. new_category g st c \<noteq> None"
    using assms(1) by (auto simp: nc permissions_synced_def list_all_iff split: option.splits)
  have "filter (\<lambda>c. sync_wanted g st c (the (new_category g st c))) ws = []"
    using assms by (auto simp: sync_wanted_def list_all_iff filter_empty_conv)
  with sync_pass_ok [OF some] show ?thesis by auto
qed

lemma roundtrip_inv_pass:
  assumes "roundtrip_inv g None st"
  shows "list_all (\<lambda>(c, d). list_all (\<lambda>p. snd p = (0, 0, 0)) d
                     \<and> list_all (\<lambda>t. t \<in> fst ` set d) (map fst (overwrites c))) (new_overwrites st)"
  using assms by (simp add: roundtrip_inv_def list_all_iff case_prod_beta)

text \<open>
  C1 (amended). For every well-formed guild state (distinct role names and channel labels,
  see \<open>wf_guild\<close>) whose member identifiers \<open>int\<close> reads back (at most 640 digits, or
  within the limit of the interpreter), and permission class with distinct flag names, the
  export succeeds, the import of the exported rows against the same guild state succeeds and computes zero
  change notes, so the command reports that there are no changes and runs no action; the
  only actions it has put on its list are overwrite edits with all masks zero that remove
  no target.
\<close>

theorem export_import_no_changes:
  assumes "wf_perms P" and "wf_guild g" and "ids_readable E g"
  shows "\<exists>rows st. exportperms P g = Inr rows \<and> importperms E P g rows = Inr st
    \<and> out_notes st = [] \<and> report st = [lit ''No changes.'']
    \<and> list_all is_noop_edit (actions st)"
proof -
  let ?cs = "sort_key (channel_sort_key g) (channels g)"
  have sub: "set ?cs \<subseteq> set (channels g)" by simp
  from channel_blocks_export [OF assms(2,1,3) sub roundtrip_inv_initial] obtain rs st1 where b:
    "those (map (export_channel_rows P g) ?cs) = Some rs"
    "process_rows E g (label_dict g) (roles_dict g) (import_flags P) initial_state (concat rs) = Inr st1"
    "roundtrip_inv g None st1" by blast
  let ?data = "map (export_role_row P) (roles g) @ concat rs"
  have ex: "exportperms P g = Inr (header_row P # ?data)"
    using b(1) by (simp add: exportperms_def)
  have roles: "process_rows E g (label_dict g) (roles_dict g) (import_flags P) initial_state
      (map (export_role_row P) (roles g)) = Inr initial_state"
    by (rule role_rows_export [OF assms(2)]) simp
  have rows: "process_rows E g (label_dict g) (roles_dict g) (import_flags P) initial_state ?data
      = Inr st1"
    using roles b(2) by (simp add: process_rows_append)
  have q: "out_notes st1 = []" "overwrites_changed st1 = []" "seen_moved st1 = []"
    "actions st1 = []" "new_overwrites st1 \<noteq> [] \<longrightarrow> channel_var st1 \<noteq> None"
    "list_all (permissions_synced g) (want_sync st1)"
    using b(3) by (simp_all add: roundtrip_inv_def)
  have na: "list_all is_noop_edit (actions st1)" using q(4) by simp
  from overwrites_pass_quiet [OF roundtrip_inv_pass [OF b(3)] q(1,2,5) na] obtain st2 where p:
    "overwrites_pass (new_overwrites st1) st1 = Inr st2" "out_notes st2 = []"
    "overwrites_changed st2 = []" "seen_moved st2 = seen_moved st1"
    "want_sync st2 = want_sync st1" "list_all is_noop_edit (actions st2)" by blast
  have ws: "list_all (permissions_synced g) (iter_order E (want_sync st2))"
    using q(6) p(5) by (simp add: list_all_iff)
  have sm: "seen_moved st2 = []" using q(3) p(4) by simp
  from sync_pass_quiet [OF ws sm p(3)] obtain st3 where s:
    "sync_pass g (iter_order E (want_sync st2)) st2 = Inr st3" "out_notes st3 = out_notes st2"
    "actions st3 = actions st2" by blast
  have cd: "channels_dict g = Some (label_dict g)"
    unfolding label_dict_def using assms(2) by (intro channels_dict_Some) (simp add: wf_guild_def)
  have "importperms E P g (header_row P # ?data) = sync_pass g (iter_order E (want_sync st2)) st2"
    by (rule importperms_Cons [OF cd parse_header_export [OF assms(1)] rows p(1)])
  with s have im: "importperms E P g (header_row P # ?data) = Inr st3" by simp
  have "out_notes st3 = []" using s(2) p(2) by simp
  moreover from this have "report st3 = [lit ''No changes.'']" by (simp add: report_def)
  moreover have "list_all is_noop_edit (actions st3)" using s(3) p(6) by simp
  ultimately show ?thesis using ex im by blast
qed

lemma wf_perms_demo: "wf_perms demo_perms"
  by (simp add: wf_perms_def demo_perms_def)

lemma chan_category_market: "chan_category guild_town chan_market = Some cat_town"
  by (simp add: chan_category_def get_channel_def guild_town_def chan_square_def
      chan_market_def cat_town_def text_channel_def category_channel_def)

lemma chan_category_town: "chan_category guild_town cat_town = None"
  by (simp add: chan_category_def cat_town_def category_channel_def)

lemma labels_town:
  "map (occurrence_label guild_town) (channels guild_town) = [lit ''market'', lit ''town'', lit ''square'']"
  by (simp add: occurrence_label_def guild_town_def chan_square_def
      chan_market_def cat_town_def text_channel_def category_channel_def)

lemma wf_channel_town: "wf_channel guild_town cat_town"
  unfolding wf_channel_def chan_category_town
  by (simp add: cat_town_def category_channel_def wf_target_def guild_town_def is_category_def)

lemma wf_channel_square: "wf_channel guild_town chan_square"
  unfolding wf_channel_def chan_category_square
  by (simp add: is_category_town)
     (simp add: chan_square_def text_channel_def wf_target_def guild_town_def is_category_def)

lemma wf_channel_market: "wf_channel guild_town chan_market"
  unfolding wf_channel_def chan_category_market
  by (simp add: is_category_town)
     (simp add: chan_market_def text_channel_def wf_target_def guild_town_def is_category_def
        role_mod_def member_ann_def)

lemma wf_guild_town: "wf_guild guild_town"
proof -
  have "distinct (map (occurrence_label guild_town) (channels guild_town))"
    unfolding labels_town by simp
  moreover have "list_all (wf_channel guild_town) (channels guild_town)"
    using wf_channel_town wf_channel_square wf_channel_market by (simp add: guild_town_def)
  moreover have "distinct (map chan_id (channels guild_town))"
    by (simp add: guild_town_def chan_square_def
      chan_market_def cat_town_def text_channel_def category_channel_def)
  moreover have "distinct (map role_name (roles guild_town))"
    "distinct (map member_id (members guild_town))"
    by (simp_all add: guild_town_def)
  ultimately show ?thesis by (simp add: wf_guild_def)
qed

lemma readable_target_demo: "readable_target demo_env (TMember member_ann)"
  "readable_target demo_env (TRole r)"
  by (simp_all add: readable_target_def digits_allowed_def member_ann_def show_nat.simps)

lemma ids_readable_town: "ids_readable demo_env guild_town"
  using readable_target_demo
  by (simp add: ids_readable_def guild_town_def chan_market_def cat_town_def chan_square_def
      text_channel_def category_channel_def)

theorem export_import_no_changes_witness:
  "wf_perms demo_perms \<and> wf_guild guild_town \<and> ids_readable demo_env guild_town
   \<and> (\<exists>rows st. exportperms demo_perms guild_town = Inr rows
         \<and> importperms demo_env demo_perms guild_town rows = Inr st
         \<and> out_notes st = [] \<and> report st = [lit ''No changes.''])"
  using export_import_no_changes [OF wf_perms_demo wf_guild_town ids_readable_town]
    wf_perms_demo wf_guild_town ids_readable_town
  by blast

lemma chan_category_rm: "chan_category guild_role_member chan_role_member = None"
  by (simp add: chan_category_def chan_role_member_def text_channel_def)

lemma overwrites_rm:
  "overwrites chan_role_member = [(TRole role_mod, (0, 0)), (TMember member_ann, (0, 0))]"
  by (simp add: chan_role_member_def text_channel_def)

lemma not_category_rm: "\<not> is_category chan_role_member"
  by (simp add: is_category_def chan_role_member_def text_channel_def)

lemma label_rm: "occurrence_label guild_role_member chan_role_member = lit ''general''"
  by (simp add: occurrence_label_def guild_role_member_def chan_role_member_def text_channel_def)

lemma wf_guild_role_member: "wf_guild guild_role_member"
proof -
  have "wf_channel guild_role_member chan_role_member"
    unfolding wf_channel_def chan_category_rm overwrites_rm
    by (simp add: not_category_rm)
       (simp add: chan_role_member_def text_channel_def wf_target_def guild_role_member_def
          role_mod_def member_ann_def)
  then show ?thesis
    by (simp add: wf_guild_def guild_role_member_def)
qed

lemma in_rm: "chan_role_member \<in> set (channels guild_role_member)"
  by (simp add: guild_role_member_def)

lemma sorted_overwrites_rm:
  "sorted_overwrites guild_role_member chan_role_member
   = [(TMember member_ann, (0, 0)), (TRole role_mod, (0, 0))]"
  unfolding sorted_overwrites_def overwrites_rm
  by (simp add: overwrite_sort_key_def guild_role_member_def)

lemma not_synced_rm: "\<not> permissions_synced guild_role_member chan_role_member"
  by (simp add: permissions_synced_def chan_category_rm)

text \<open>
  C1 as claimed fails: for a guild with one channel that is not synced, the import of the
  exported rows computes no note but puts an overwrite edit for the channel on its list of
  actions.
\<close>

theorem export_import_schedules_edit:
  "and_then (exportperms demo_perms guild_role_member) (importperms demo_env demo_perms guild_role_member)
   = Inr \<lparr>actions = [EditOverwrites chan_role_member
                        [(TMember member_ann, (0, 0, 0)), (TRole role_mod, (0, 0, 0))]],
          out_notes = [],
          new_overwrites = [(chan_role_member,
                             [(TMember member_ann, (0, 0, 0)), (TRole role_mod, (0, 0, 0))])],
          overwrites_changed = [], want_sync = [], seen_moved = [],
          channel_var = Some chan_role_member\<rparr>"
proof -
  let ?g = "guild_role_member" and ?c = "chan_role_member" and ?P = "demo_perms"
    and ?E = "demo_env"
  let ?hc = "header_cells ?g ?c"
  let ?r0 = "export_role_row ?P role_mod"
  let ?r1 = "?hc @ [[]]"
  let ?r2 = "?hc @ [target_name (TMember member_ann)] @ overwrite_signs ?P (0, 0)"
  let ?r3 = "?hc @ [target_name (TRole role_mod)] @ overwrite_signs ?P (0, 0)"
  note wf = wf_guild_role_member
  have ch: "channels ?g = [?c]" "roles ?g = [role_mod]"
    by (simp_all add: guild_role_member_def)
  have ec: "export_channel_rows ?P ?g ?c = Some [?r1, ?r2, ?r3]"
    by (simp add: export_channel_rows_def channel_header_export [OF wf in_rm]
        not_synced_rm sorted_overwrites_rm)
  have ex: "exportperms ?P ?g = Inr (header_row ?P # [?r0, ?r1, ?r2, ?r3])"
    by (simp add: exportperms_def ch ec)
  let ?st1 = "initial_state\<lparr>channel_var := Some ?c, new_overwrites := [(?c, [])]\<rparr>"
  let ?st2 = "initial_state\<lparr>channel_var := Some ?c,
      new_overwrites := [(?c, [(TMember member_ann, (0, 0, 0))])]\<rparr>"
  let ?st3 = "initial_state\<lparr>channel_var := Some ?c,
      new_overwrites := [(?c, [(TMember member_ann, (0, 0, 0)), (TRole role_mod, (0, 0, 0))])]\<rparr>"
  have p0: "process_row ?E ?g (label_dict ?g) (roles_dict ?g) (import_flags ?P) initial_state ?r0
            = Inr initial_state"
    by (rule role_row_export [OF wf]) (simp add: guild_role_member_def)
  have p1: "process_row ?E ?g (label_dict ?g) (roles_dict ?g) (import_flags ?P) initial_state ?r1
            = Inr ?st1"
    unfolding channel_row_plain [OF wf in_rm]
    by (simp add: overwrites_of_def initial_state_def)
  have m2: "(TMember member_ann, (0, 0)) \<in> set (overwrites ?c)"
    and m3: "(TRole role_mod, (0, 0)) \<in> set (overwrites ?c)"
    by (simp_all add: overwrites_rm)
  have p2: "process_row ?E ?g (label_dict ?g) (roles_dict ?g) (import_flags ?P) ?st1 ?r2 = Inr ?st2"
    unfolding channel_row_target [OF wf wf_perms_demo in_rm m2 readable_target_demo(1)]
    by (simp add: overwrites_of_def initial_state_def)
  have p3: "process_row ?E ?g (label_dict ?g) (roles_dict ?g) (import_flags ?P) ?st2 ?r3 = Inr ?st3"
    unfolding channel_row_target [OF wf wf_perms_demo in_rm m3 readable_target_demo(2)]
    by (simp add: overwrites_of_def initial_state_def)
  have rows: "process_rows ?E ?g (label_dict ?g) (roles_dict ?g) (import_flags ?P) initial_state
      [?r0, ?r1, ?r2, ?r3] = Inr ?st3"
    by (simp only: process_rows_Cons [OF p0] process_rows_Cons [OF p1] process_rows_Cons [OF p2]
        process_rows_Cons [OF p3] process_rows.simps(1))
  let ?st4 = "?st3\<lparr>actions := [EditOverwrites ?c
                        [(TMember member_ann, (0, 0, 0)), (TRole role_mod, (0, 0, 0))]]\<rparr>"
  have pass: "overwrites_pass (new_overwrites ?st3) ?st3 = Inr ?st4"
    by (simp add: overwrites_rm initial_state_def)
  have cd: "channels_dict ?g = Some (label_dict ?g)"
    unfolding label_dict_def using wf by (intro channels_dict_Some) (simp add: wf_guild_def)
  have "importperms ?E ?P ?g (header_row ?P # [?r0, ?r1, ?r2, ?r3])
        = sync_pass ?g (iter_order ?E (want_sync ?st4)) ?st4"
    by (rule importperms_Cons [OF cd parse_header_export [OF wf_perms_demo] rows pass])
  also have "\<dots> = Inr ?st4" by (simp add: initial_state_def)
  finally have "and_then (exportperms ?P ?g) (importperms ?E ?P ?g) = Inr ?st4"
    by (simp only: ex and_then_simps)
  then show ?thesis by (simp add: initial_state_def)
qed

end
